theory Spec2Isabelle
  imports Complex_Main "HOL-Library.Word"
begin

section \<open>JavaScript strings\<close>

text \<open>
  A JavaScript string is a sequence of UTF-16 code units; \<open>length\<close>, \<open>slice\<close>,
  \<open>split\<close> and the regular expressions of \<open>AudioStreamProcessor.ts\<close> (none has the
  \<open>u\<close> flag) all work on code units. Every character the source names lies in the
  Basic Multilingual Plane, so each is one code unit. The code units the source and the
  transcripts of the specification use are named below: \<open>h_\<close> is a hiragana letter
  (\<open>h_x\<close> a small one), \<open>k_\<close> a kanji, \<open>c_\<close> a punctuation mark.
\<close>

type_synonym jsstring = "nat list"

abbreviation c_comma :: nat where "c_comma \<equiv> 0x3001"
abbreviation c_stop :: nat where "c_stop \<equiv> 0x3002"
abbreviation c_wave :: nat where "c_wave \<equiv> 0x301C"
abbreviation h_xa :: nat where "h_xa \<equiv> 0x3041"
abbreviation h_a :: nat where "h_a \<equiv> 0x3042"
abbreviation h_i :: nat where "h_i \<equiv> 0x3044"
abbreviation h_u :: nat where "h_u \<equiv> 0x3046"
abbreviation h_e :: nat where "h_e \<equiv> 0x3048"
abbreviation h_o :: nat where "h_o \<equiv> 0x304A"
abbreviation h_ka :: nat where "h_ka \<equiv> 0x304B"
abbreviation h_ga :: nat where "h_ga \<equiv> 0x304C"
abbreviation h_ki :: nat where "h_ki \<equiv> 0x304D"
abbreviation h_gi :: nat where "h_gi \<equiv> 0x304E"
abbreviation h_ku :: nat where "h_ku \<equiv> 0x304F"
abbreviation h_ke :: nat where "h_ke \<equiv> 0x3051"
abbreviation h_ko :: nat where "h_ko \<equiv> 0x3053"
abbreviation h_sa :: nat where "h_sa \<equiv> 0x3055"
abbreviation h_si :: nat where "h_si \<equiv> 0x3057"
abbreviation h_zi :: nat where "h_zi \<equiv> 0x3058"
abbreviation h_su :: nat where "h_su \<equiv> 0x3059"
abbreviation h_zu :: nat where "h_zu \<equiv> 0x305A"
abbreviation h_se :: nat where "h_se \<equiv> 0x305B"
abbreviation h_ze :: nat where "h_ze \<equiv> 0x305C"
abbreviation h_so :: nat where "h_so \<equiv> 0x305D"
abbreviation h_ta :: nat where "h_ta \<equiv> 0x305F"
abbreviation h_da :: nat where "h_da \<equiv> 0x3060"
abbreviation h_ti :: nat where "h_ti \<equiv> 0x3061"
abbreviation h_xtu :: nat where "h_xtu \<equiv> 0x3063"
abbreviation h_tu :: nat where "h_tu \<equiv> 0x3064"
abbreviation h_te :: nat where "h_te \<equiv> 0x3066"
abbreviation h_de :: nat where "h_de \<equiv> 0x3067"
abbreviation h_to :: nat where "h_to \<equiv> 0x3068"
abbreviation h_do :: nat where "h_do \<equiv> 0x3069"
abbreviation h_na :: nat where "h_na \<equiv> 0x306A"
abbreviation h_ni :: nat where "h_ni \<equiv> 0x306B"
abbreviation h_ne :: nat where "h_ne \<equiv> 0x306D"
abbreviation h_no :: nat where "h_no \<equiv> 0x306E"
abbreviation h_ha :: nat where "h_ha \<equiv> 0x306F"
abbreviation h_pa :: nat where "h_pa \<equiv> 0x3071"
abbreviation h_ma :: nat where "h_ma \<equiv> 0x307E"
abbreviation h_mi :: nat where "h_mi \<equiv> 0x307F"
abbreviation h_mo :: nat where "h_mo \<equiv> 0x3082"
abbreviation h_xya :: nat where "h_xya \<equiv> 0x3083"
abbreviation h_ya :: nat where "h_ya \<equiv> 0x3084"
abbreviation h_xyo :: nat where "h_xyo \<equiv> 0x3087"
abbreviation h_yo :: nat where "h_yo \<equiv> 0x3088"
abbreviation h_ra :: nat where "h_ra \<equiv> 0x3089"
abbreviation h_ri :: nat where "h_ri \<equiv> 0x308A"
abbreviation h_ru :: nat where "h_ru \<equiv> 0x308B"
abbreviation h_re :: nat where "h_re \<equiv> 0x308C"
abbreviation h_ro :: nat where "h_ro \<equiv> 0x308D"
abbreviation h_wo :: nat where "h_wo \<equiv> 0x3092"
abbreviation h_n :: nat where "h_n \<equiv> 0x3093"
abbreviation c_long :: nat where "c_long \<equiv> 0x30FC"
abbreviation k_yo :: nat where "k_yo \<equiv> 0x4E88"
abbreviation k_kon :: nat where "k_kon \<equiv> 0x4ECA"
abbreviation k_nani :: nat where "k_nani \<equiv> 0x4F55"
abbreviation k_ka :: nat where "k_ka \<equiv> 0x52A0"
abbreviation k_san :: nat where "k_san \<equiv> 0x53C2"
abbreviation k_haji :: nat where "k_haji \<equiv> 0x59CB"
abbreviation k_tei :: nat where "k_tei \<equiv> 0x5B9A"
abbreviation k_omo :: nat where "k_omo \<equiv> 0x601D"
abbreviation k_oshi :: nat where "k_oshi \<equiv> 0x6559"
abbreviation k_nichi :: nat where "k_nichi \<equiv> 0x65E5"
abbreviation k_ji :: nat where "k_ji \<equiv> 0x6642"
abbreviation k_tsugi :: nat where "k_tsugi \<equiv> 0x6B21"
abbreviation k_kanga :: nat where "k_kanga \<equiv> 0x8003"
abbreviation k_ki :: nat where "k_ki \<equiv> 0x805E"
abbreviation k_dare :: nat where "k_dare \<equiv> 0x8AB0"
abbreviation k_itada :: nat where "k_itada \<equiv> 0x9802"
abbreviation k_nega :: nat where "k_nega \<equiv> 0x9858"
abbreviation c_excl :: nat where "c_excl \<equiv> 0xFF01"
abbreviation c_qm :: nat where "c_qm \<equiv> 0xFF1F"
abbreviation a_space :: nat where "a_space \<equiv> 0x20"
abbreviation a_excl :: nat where "a_excl \<equiv> 0x21"
abbreviation a_qm :: nat where "a_qm \<equiv> 0x3F"
abbreviation a_bar :: nat where "a_bar \<equiv> 0x7C"
abbreviation a_newline :: nat where "a_newline \<equiv> 0x0A"

text \<open>
  The class \<open>\s\<close> of a regular expression and the characters \<open>trim\<close> removes are
  the same set (ECMAScript's WhiteSpace and LineTerminator); \<open>.\<close> matches every code
  unit but a line terminator.
\<close>

definition isLineTerminator :: "nat \<Rightarrow> bool" where
  "isLineTerminator c \<longleftrightarrow> c = 0x0A \<or> c = 0x0D \<or> c = 0x2028 \<or> c = 0x2029"

definition isWhiteSpace :: "nat \<Rightarrow> bool" where
  "isWhiteSpace c \<longleftrightarrow>
     (0x09 \<le> c \<and> c \<le> 0x0D) \<or> c = 0x20 \<or> c = 0xA0 \<or> c = 0x1680 \<or>
     (0x2000 \<le> c \<and> c \<le> 0x200A) \<or> c = 0x2028 \<or> c = 0x2029 \<or> c = 0x202F \<or>
     c = 0x205F \<or> c = 0x3000 \<or> c = 0xFEFF"

definition trim :: "jsstring \<Rightarrow> jsstring" where
  "trim s = rev (dropWhile isWhiteSpace (rev (dropWhile isWhiteSpace s)))"

text \<open>
  \<open>toLowerCase\<close> and \<open>toUpperCase\<close> are modelled on Basic Latin letters and leave every
  other code unit as it is: kana, kanji and the punctuation above have no case. (The full
  Unicode case mapping also changes other cased scripts; no statement below depends on how
  those are mapped.)
\<close>

definition isLatinLetter :: "nat \<Rightarrow> bool" where
  "isLatinLetter c \<longleftrightarrow> (0x41 \<le> c \<and> c \<le> 0x5A) \<or> (0x61 \<le> c \<and> c \<le> 0x7A)"

definition toLowerCase :: "jsstring \<Rightarrow> jsstring" where
  "toLowerCase s = map (\<lambda>c. if 0x41 \<le> c \<and> c \<le> 0x5A then c + 0x20 else c) s"

definition toUpperCase :: "jsstring \<Rightarrow> jsstring" where
  "toUpperCase s = map (\<lambda>c. if 0x61 \<le> c \<and> c \<le> 0x7A then c - 0x20 else c) s"

fun startsWith :: "'a list \<Rightarrow> 'a list \<Rightarrow> bool" where
  "startsWith s [] = True"
| "startsWith [] (c # w) = False"
| "startsWith (d # s) (c # w) = (if d = c then startsWith s w else False)"

definition endsWith :: "jsstring \<Rightarrow> jsstring \<Rightarrow> bool" where
  "endsWith s w = startsWith (rev s) (rev w)"

fun includesStr :: "jsstring \<Rightarrow> jsstring \<Rightarrow> bool" where
  "includesStr [] w = (w = [])"
| "includesStr (c # s) w = (if startsWith (c # s) w then True else includesStr s w)"

text \<open>\<open>xs.some(P)\<close>, which stops at the first element that satisfies \<open>P\<close>.\<close>

fun some :: "('a \<Rightarrow> bool) \<Rightarrow> 'a list \<Rightarrow> bool" where
  "some P [] = False"
| "some P (x # xs) = (if P x then True else some P xs)"

fun join :: "jsstring \<Rightarrow> jsstring list \<Rightarrow> jsstring" where
  "join sep [] = []"
| "join sep [x] = x"
| "join sep (x # y # ys) = x @ sep @ join sep (y # ys)"

text \<open>\<open>s.slice(-n)\<close>: the last \<open>n\<close> code units of \<open>s\<close> (all of it when it is shorter).\<close>

definition sliceLast :: "nat \<Rightarrow> jsstring \<Rightarrow> jsstring" where
  "sliceLast n s = drop (length s - n) s"

subsection \<open>Splitting\<close>

text \<open>
  \<open>s.split(re)\<close> for a regular expression whose match is either a maximal run of
  characters of the class \<open>R\<close> or one character of the class \<open>S\<close> (\<open>/[R]+|[S]/\<close>):
  the pieces between the matches, empty pieces included. The flag says that the previous
  character belonged to a run of \<open>R\<close>, which the same separator still covers.
\<close>

fun splitRegex :: "(nat \<Rightarrow> bool) \<Rightarrow> (nat \<Rightarrow> bool) \<Rightarrow> bool \<Rightarrow> jsstring \<Rightarrow> jsstring list" where
  "splitRegex R S inRun [] = [[]]"
| "splitRegex R S inRun (c # t) =
     (if R c then (if inRun then splitRegex R S True t else [] # splitRegex R S True t)
      else if S c then [] # splitRegex R S False t
      else (case splitRegex R S False t of
              [] \<Rightarrow> [[c]]
            | p # ps \<Rightarrow> (c # p) # ps))"

definition splitOnRuns :: "(nat \<Rightarrow> bool) \<Rightarrow> jsstring \<Rightarrow> jsstring list" where
  "splitOnRuns R s = splitRegex R (\<lambda>c. False) False s"

definition splitOnChars :: "(nat \<Rightarrow> bool) \<Rightarrow> jsstring \<Rightarrow> jsstring list" where
  "splitOnChars S s = splitRegex (\<lambda>c. False) S False s"

text \<open>\<open>s.split(sep)\<close> for a non-empty string separator; \<open>acc\<close> is the current piece, reversed.\<close>

fun splitStr :: "jsstring \<Rightarrow> jsstring \<Rightarrow> jsstring \<Rightarrow> jsstring list" where
  "splitStr sep acc [] = [rev acc]"
| "splitStr sep acc (c # t) =
     (if sep \<noteq> [] \<and> startsWith (c # t) sep
      then rev acc # splitStr sep [] (drop (length sep) (c # t))
      else splitStr sep (c # acc) t)"

subsection \<open>Regular expressions\<close>

text \<open>
  A regular expression is transcribed as a matcher in continuation-passing style: a
  matcher takes the matcher of the rest of the pattern and the input at the current
  position. \<open>test\<close> tries every start position, as \<open>RegExp.prototype.test\<close> does for a
  pattern with no \<open>^\<close>.
\<close>

type_synonym matcher = "jsstring \<Rightarrow> bool"

definition accept :: matcher where
  "accept s = True"

definition eos :: matcher where
  "eos s = (s = [])"

definition lit :: "jsstring \<Rightarrow> matcher \<Rightarrow> matcher" where
  "lit w k s = (if startsWith s w then k (drop (length w) s) else False)"

definition cls :: "(nat \<Rightarrow> bool) \<Rightarrow> matcher \<Rightarrow> matcher" where
  "cls P k s = (case s of [] \<Rightarrow> False | c # t \<Rightarrow> if P c then k t else False)"

definition optCls :: "(nat \<Rightarrow> bool) \<Rightarrow> matcher \<Rightarrow> matcher" where
  "optCls P k s = (if cls P k s then True else k s)"

definition alts :: "jsstring list \<Rightarrow> matcher \<Rightarrow> matcher" where
  "alts ws k s = some (\<lambda>w. lit w k s) ws"

definition optAlts :: "jsstring list \<Rightarrow> matcher \<Rightarrow> matcher" where
  "optAlts ws k s = (if alts ws k s then True else k s)"

fun clsStar :: "(nat \<Rightarrow> bool) \<Rightarrow> matcher \<Rightarrow> matcher" where
  "clsStar P k [] = k []"
| "clsStar P k (c # t) = (if k (c # t) then True else if P c then clsStar P k t else False)"

definition clsPlus :: "(nat \<Rightarrow> bool) \<Rightarrow> matcher \<Rightarrow> matcher" where
  "clsPlus P k s = cls P (clsStar P k) s"

definition dotStar :: "matcher \<Rightarrow> matcher" where
  "dotStar k s = clsStar (\<lambda>c. \<not> isLineTerminator c) k s"

fun test :: "matcher \<Rightarrow> jsstring \<Rightarrow> bool" where
  "test m [] = m []"
| "test m (c # t) = (if m (c # t) then True else test m t)"

text \<open>
  \<open>s.replace(re, '')\<close> for a pattern that ends in \<open>$\<close>: the leftmost start position
  where the pattern matches; the match runs to the end of the string and is removed.
  When no position matches, the string is unchanged.
\<close>

fun replaceTail :: "matcher \<Rightarrow> jsstring \<Rightarrow> jsstring" where
  "replaceTail m [] = []"
| "replaceTail m (c # t) = (if m (c # t) then [] else c # replaceTail m t)"

text \<open>\<open>s.replace(/\s+/g, ' ')\<close>: every maximal run of white space becomes one space.\<close>

fun collapseSpaces :: "bool \<Rightarrow> jsstring \<Rightarrow> jsstring" where
  "collapseSpaces inRun [] = []"
| "collapseSpaces inRun (c # t) =
     (if isWhiteSpace c then (if inRun then collapseSpaces True t else a_space # collapseSpaces True t)
      else c # collapseSpaces False t)"

section \<open>The question extraction pipeline\<close>

subsection \<open>Lookup tables of the class\<close>

definition fillerWords :: "jsstring list" where
  "fillerWords =
    [
     [h_e, c_long], [h_a, c_long], [h_u, c_long], [h_n, c_long],
     [h_so, h_no, c_long], [h_a, h_no, c_long], [h_e, c_long, h_xtu, h_to], [h_a, c_long, h_to],
     [h_ma, h_a], [h_na, h_n, h_ka], [h_ti, h_xyo, h_xtu, h_to], [h_ya, h_xtu, h_pa, h_ri],
     [h_ya, h_xtu, h_pa], [h_da, h_ka, h_ra], [h_de, h_mo], [h_u, h_n],
     [h_ha, h_i], [h_so, h_u], [h_de, h_su, h_ne], [h_de, h_su, h_ga],
     [h_ta, h_da], [h_ma, h_zu], [h_so, h_re, h_de], [h_to, h_i, h_u, h_ka],
     [h_te, h_ka], [h_na, h_no, h_de], [h_ke, h_do], [h_ke, h_re, h_do],
     [h_si, h_ka, h_si], [h_de, h_mo], [c_long], [c_wave],
     [h_u, c_wave, h_n], [h_e, c_wave], [h_a, c_wave], [h_so, c_wave],
     [h_n, c_wave], [h_zi, h_xya, h_a], [h_de, h_ha], [h_so, h_re, h_de, h_ha],
     [h_sa, h_te], [h_ti, h_na, h_mi, h_ni], [h_to, h_ko, h_ro, h_de], [h_e, h_xtu, h_to],
     [h_e, h_to], [h_a, h_no], [h_so, h_no], [h_to, h_ri, h_a, h_e, h_zu],
     [h_ma, h_xa], [h_ma, h_xa, h_so, h_no], [h_na, h_n, h_te, h_i, h_u, h_ka]
    ]"

definition isFiller :: "jsstring \<Rightarrow> bool" where
  "isFiller w \<longleftrightarrow> w \<in> set fillerWords"

definition questionStarters :: "jsstring list" where
  "questionStarters =
    [
     [h_do, h_u], [h_do, h_no], [h_do, h_ko], [h_i, h_tu], [h_na, h_ze],
     [h_na, h_n], [k_nani], [h_da, h_re], [k_dare], [h_do, h_ti, h_ra],
     [h_do, h_re], [h_i, h_ku, h_ra], [h_i, h_ku, h_tu], [h_do, h_no, h_yo, h_u], [h_do, h_n, h_na]
    ]"


subsection \<open>looksLikeQuestion\<close>

definition interrogatives :: "jsstring list" where
  "interrogatives =
    [
     [h_do, h_u], [h_do, h_no], [h_do, h_ko], [h_i, h_tu], [h_na, h_ze],
     [h_na, h_n], [k_nani], [h_da, h_re], [k_dare], [h_do, h_ti, h_ra],
     [h_do, h_re], [h_i, h_ku, h_ra], [h_i, h_ku, h_tu]
    ]"

definition questionEndings :: "jsstring list" where
  "questionEndings =
    [
     [h_de, h_su, h_ka], [h_ma, h_su, h_ka], [h_de, h_si, h_xyo, h_u, h_ka], [h_ka, h_si, h_ra], [h_no, h_ka]
    ]"

definition politeRequests :: "jsstring list" where
  "politeRequests =
    [
     [k_oshi, h_e, h_te, h_ku, h_da, h_sa, h_i], [h_o, k_ki, h_ka, h_se, h_ku, h_da, h_sa, h_i],
     [h_o, k_nega, h_i, h_si, h_ma, h_su], [h_o, k_nega, h_i, h_de, h_ki, h_ma, h_su, h_ka],
     [h_o, k_nega, h_i, h_si, h_te, h_mo, h_i, h_i, h_de, h_su, h_ka], [h_i, h_ta, h_da, h_ke, h_ma, h_su, h_ka],
     [k_itada, h_ke, h_ma, h_su, h_ka], [h_i, h_ta, h_da, h_ke, h_ma, h_se, h_n, h_ka],
     [h_te, h_mo, h_ra, h_e, h_ma, h_su, h_ka], [h_te, h_ku, h_re, h_ma, h_su, h_ka],
     [h_te, h_ku, h_da, h_sa, h_i]
    ]"

definition isQuestionMark :: "nat \<Rightarrow> bool" where
  "isQuestionMark c \<longleftrightarrow> c = c_qm \<or> c = a_qm"

text \<open>
  The patterns of \<open>looksLikeQuestion\<close>, in the order of the source: thirteen of the form
  \<open>/W.*/\<close>, five of the form \<open>/.*W/\<close>, and the polite requests
  \<open>/.*(W1|...|W11)[\<dots>]?$/\<close>, whose optional last character is an ideographic full
  stop or a question mark.
\<close>

definition questionPatterns :: "matcher list" where
  "questionPatterns =
     map (\<lambda>w. lit w (dotStar accept)) interrogatives @
     map (\<lambda>w. dotStar (lit w accept)) questionEndings @
     [dotStar (alts politeRequests (optCls (\<lambda>c. c = c_stop \<or> isQuestionMark c) eos))]"

definition looksLikeQuestion :: "jsstring \<Rightarrow> bool" where
  "looksLikeQuestion text = some (\<lambda>pattern. test pattern text) questionPatterns"

subsection \<open>splitIntoQuestions\<close>

definition isSentenceDelimiter :: "nat \<Rightarrow> bool" where
  "isSentenceDelimiter c \<longleftrightarrow> c = c_excl \<or> c = c_qm \<or> c = a_excl \<or> c = c_stop"

definition connectors :: "jsstring list" where
  "connectors = [[h_so, h_re, h_ka, h_ra], [h_a, h_to], [k_tsugi, h_ni], [h_tu, h_gi, h_ni]]"

definition kaEndings :: "jsstring list" where
  "kaEndings = [[h_de, h_su, h_ka], [h_ma, h_su, h_ka], [h_de, h_si, h_xyo, h_u, h_ka], [h_ka]]"

definition politeEndings :: "jsstring list" where
  "politeEndings =
    [
     [k_oshi, h_e, h_te, h_ku, h_da, h_sa, h_i], [h_o, k_ki, h_ka, h_se, h_ku, h_da, h_sa, h_i],
     [h_o, k_nega, h_i, h_si, h_ma, h_su], [h_o, k_nega, h_i, h_de, h_ki, h_ma, h_su, h_ka],
     [h_i, h_ta, h_da, h_ke, h_ma, h_su, h_ka], [k_itada, h_ke, h_ma, h_su, h_ka],
     [h_i, h_ta, h_da, h_ke, h_ma, h_se, h_n, h_ka], [h_te, h_mo, h_ra, h_e, h_ma, h_su, h_ka],
     [h_te, h_ku, h_re, h_ma, h_su, h_ka], [h_te, h_ku, h_da, h_sa, h_i]
    ]"

text \<open>The first loop's body: \<open>part.split(/[?]/).map(p => p.trim()).filter(Boolean)\<close>
  (the class holds both question marks), kept only when it has more than one piece.\<close>

definition splitByQuestionMarks :: "jsstring \<Rightarrow> jsstring list" where
  "splitByQuestionMarks part =
     (let qmSplit = filter (\<lambda>p. p \<noteq> []) (map trim (splitOnChars isQuestionMark part))
      in if length qmSplit > 1 then qmSplit else [part])"

text \<open>The inner loop's body, for one connector \<open>c\<close>:
  \<open>subParts.flatMap(sp => sp.split(c).map(s => s.trim()).filter(Boolean))\<close>.\<close>

definition splitByConnector :: "jsstring list \<Rightarrow> jsstring \<Rightarrow> jsstring list" where
  "splitByConnector subParts c =
     concat (map (\<lambda>sp. filter (\<lambda>s. s \<noteq> []) (map trim (splitStr c [] sp))) subParts)"

definition splitByConnectors :: "jsstring \<Rightarrow> jsstring list" where
  "splitByConnectors p = foldl splitByConnector [p] connectors"

text \<open>The final filter: at least two code units, and one of \<open>looksLikeQuestion\<close>,
  \<open>/[?]$/\<close>, \<open>/(W1|...|W4)$/\<close> with the endings in \<open>ka\<close>, or \<open>/(W1|...|W10)$/\<close>
  with the polite endings.\<close>

definition isQuestionPart :: "jsstring \<Rightarrow> bool" where
  "isQuestionPart p \<longleftrightarrow>
     length p \<ge> 2 \<and>
     (looksLikeQuestion p \<or> test (cls isQuestionMark eos) p \<or>
      test (alts kaEndings eos) p \<or> test (alts politeEndings eos) p)"

text \<open>\<open>p.replace(/[C\s]+$/g, '').trim()\<close>, \<open>C\<close> the ideographic comma.\<close>

definition stripTrailingCommas :: "jsstring \<Rightarrow> jsstring" where
  "stripTrailingCommas p = trim (replaceTail (clsPlus (\<lambda>c. c = c_comma \<or> isWhiteSpace c) eos) p)"

text \<open>The first statement: \<open>text.split(/[\n]+|[D]/).map(p => p.trim()).filter(p => p.length > 0)\<close>,
  \<open>D\<close> the four sentence delimiters.\<close>

definition sentenceParts :: "jsstring \<Rightarrow> jsstring list" where
  "sentenceParts text =
     filter (\<lambda>p. length p > 0)
       (map trim (splitRegex (\<lambda>c. c = a_newline) isSentenceDelimiter False text))"

definition splitIntoQuestions :: "jsstring \<Rightarrow> jsstring list" where
  "splitIntoQuestions text =
     (if text = [] then []
      else filter isQuestionPart
             (map stripTrailingCommas
               (concat (map splitByConnectors
                 (concat (map splitByQuestionMarks (sentenceParts text)))))))"

subsection \<open>trimPreface\<close>

definition leadingPreface :: "jsstring list" where
  "leadingPreface =
    [
     [h_zi, h_xya, h_a], [h_de, h_ha], [h_so, h_re, h_de, h_ha], [h_sa, h_te],
     [h_ti, h_na, h_mi, h_ni], [h_to, h_ko, h_ro, h_de], [h_e, h_xtu, h_to], [h_e, h_to],
     [h_a, h_no], [h_so, h_no], [h_to, h_ri, h_a, h_e, h_zu], [h_ma, h_xa],
     [h_ma, h_xa, h_so, h_no], [h_na, h_n, h_te, h_i, h_u, h_ka], [h_ma, h_zu], [h_e, c_long],
     [h_a, c_long], [h_u, c_long], [h_so, h_no, c_long], [h_e, c_long, h_xtu, h_to]
    ]"

text \<open>
  \<open>keepTopicPatterns\<close> has one pattern: \<open>ni-tu-i-te\<close>, then \<open>.*\<close>, then one of the
  endings in \<open>ka\<close> or a question mark at the end of the string.
\<close>

definition keepTopicPattern :: matcher where
  "keepTopicPattern =
     lit [h_ni, h_tu, h_i, h_te]
       (dotStar (\<lambda>s. if alts kaEndings accept s then True else cls isQuestionMark eos s))"

text \<open>
  \<open>leadingPrefacePattern\<close> is \<open>/^(W1|...|W20)\s+/\<close>: the first alternative, in the
  order of the source, that is followed by white space; \<open>\s+\<close> is greedy and nothing
  follows it, so the match takes the whole run. The result is what is left of the string
  after the match, or \<open>None\<close> when the pattern does not match.
\<close>

definition matchLeadingPreface :: "jsstring \<Rightarrow> jsstring option" where
  "matchLeadingPreface s =
     (case find (\<lambda>w. lit w (cls isWhiteSpace accept) s) leadingPreface of
        None \<Rightarrow> None
      | Some w \<Rightarrow> Some (dropWhile isWhiteSpace (drop (length w) s)))"

text \<open>The loop \<open>for (let i = 0; i < 3; i++)\<close>, counted down.\<close>

fun stripLeadingPreface :: "nat \<Rightarrow> jsstring \<Rightarrow> jsstring" where
  "stripLeadingPreface 0 result = result"
| "stripLeadingPreface (Suc n) result =
     (case matchLeadingPreface result of
        Some rest \<Rightarrow> stripLeadingPreface n (trim rest)
      | None \<Rightarrow> result)"

definition trimPreface :: "jsstring \<Rightarrow> jsstring" where
  "trimPreface text =
     (let trimmed = trim text
      in if trimmed = [] then trimmed
         else if test keepTopicPattern trimmed then trimmed
         else stripLeadingPreface 3 trimmed)"

subsection \<open>refineQuestionAlgorithmically\<close>

definition isTokenSeparator :: "nat \<Rightarrow> bool" where
  "isTokenSeparator c \<longleftrightarrow> isWhiteSpace c \<or> c = c_comma \<or> c = c_stop \<or> c = c_excl \<or> c = c_qm"

definition trailingParticles :: "jsstring list" where
  "trailingParticles =
     [[h_de, h_su], [h_ma, h_su], [h_da], [h_de, h_a, h_ru], [h_de, h_si, h_xyo, h_u], [h_ka, h_na], [h_yo, h_ne]]"

text \<open>Step 1: \<open>refined.split(/[\s...]+/).filter(word => word.length > 0)\<close>.\<close>

definition tokens :: "jsstring \<Rightarrow> jsstring list" where
  "tokens refined = filter (\<lambda>word. length word > 0) (splitOnRuns isTokenSeparator refined)"

text \<open>Step 2: the loop over \<open>cleanedWords\<close> with its variable \<open>lastWord\<close>.\<close>

fun deduplicate :: "jsstring \<Rightarrow> jsstring list \<Rightarrow> jsstring list" where
  "deduplicate lastWord [] = []"
| "deduplicate lastWord (word # ws) =
     (if word \<noteq> lastWord \<or> \<not> isFiller word then word # deduplicate word ws
      else deduplicate word ws)"

text \<open>
  Steps 1 to 5: the refined text before step 6 looks at its end. The second pattern of
  step 5, \<open>/\s*(W1|...|W7)?\s*$/i\<close>, is case-insensitive; its words are kana, which have
  no case.
\<close>

definition refineCore :: "jsstring \<Rightarrow> jsstring" where
  "refineCore text =
     (let refined = trim (toLowerCase text);
          words = tokens refined;
          cleanedWords = filter (\<lambda>word. \<not> isFiller word) words;
          deduplicatedWords = deduplicate [] cleanedWords;
          refined = join [a_space] deduplicatedWords;
          refined = trim (collapseSpaces False refined);
          refined = replaceTail (clsStar isTokenSeparator eos) refined
      in replaceTail (clsStar isWhiteSpace (optAlts trailingParticles (clsStar isWhiteSpace eos))) refined)"

text \<open>Step 6: the question mark is appended when the text has none at its end and has a
  question starter or looks like a question.\<close>

definition ensureQuestionMark :: "jsstring \<Rightarrow> jsstring" where
  "ensureQuestionMark refined =
     (if \<not> endsWith refined [c_qm] \<and> \<not> endsWith refined [a_qm]
      then (let hasQuestionWord = some (\<lambda>starter. includesStr refined starter) questionStarters
            in if hasQuestionWord \<or> looksLikeQuestion refined then refined @ [c_qm] else refined)
      else refined)"

text \<open>Step 7.\<close>

definition capitalizeFirst :: "jsstring \<Rightarrow> jsstring" where
  "capitalizeFirst refined =
     (case refined of
        [] \<Rightarrow> []
      | c # rest \<Rightarrow> if isLatinLetter c then toUpperCase [c] @ rest else refined)"

definition refinedCandidate :: "jsstring \<Rightarrow> jsstring" where
  "refinedCandidate text = capitalizeFirst (ensureQuestionMark (refineCore text))"

text \<open>The fallback: \<open>refined.length < 3 || refined.replace(/[?]/g, '').trim().length < 2\<close>
  (the class holds both question marks).\<close>

definition tooAggressive :: "jsstring \<Rightarrow> bool" where
  "tooAggressive refined \<longleftrightarrow>
     length refined < 3 \<or> length (trim (filter (\<lambda>c. \<not> isQuestionMark c) refined)) < 2"

definition refineQuestionAlgorithmically :: "jsstring \<Rightarrow> jsstring" where
  "refineQuestionAlgorithmically text =
     (let refined = refinedCandidate text
      in if tooAggressive refined then text else refined)"


section \<open>Data model\<close>

text \<open>
  The records of \<open>types/audio-stream\<close> as \<open>AudioStreamProcessor.ts\<close> fills them. The
  \<open>id\<close> fields (random identifiers from \<open>uuidv4\<close>), the floating-point \<open>duration\<close> of
  a chunk and the constant \<open>batchProcessor\<close> entry of the state are left out; times are
  readings of \<open>Date.now()\<close> in milliseconds. A sample is the exact quotient
  \<open>int16 / 32768\<close>, which a \<open>Float32Array\<close> holds without rounding.
\<close>

datatype error = Error string

record AudioChunk =
  chunk_data :: "rat list"
  chunk_timestamp :: int
  chunk_wordCount :: int

record TranscriptionResult =
  tr_text :: jsstring
  tr_timestamp :: int
  tr_confidence :: rat
  tr_isQuestion :: bool

record DetectedQuestion =
  q_text :: jsstring
  q_timestamp :: int
  q_confidence :: rat
  refinedText :: "jsstring option"

record AudioStreamConfig =
  sampleRate :: nat
  chunkDuration :: nat
  silenceThreshold :: nat
  maxWords :: int
  questionDetectionEnabled :: bool
  batchInterval :: nat
  maxBatchSize :: nat

record AudioStreamState =
  isListening :: bool
  isProcessing :: bool
  lastActivityTime :: int
  questionBuffer :: "DetectedQuestion list"

datatype event =
    StateChanged AudioStreamState
  | ChunkRecorded AudioChunk
  | TranscriptionCompleted TranscriptionResult
  | QuestionDetected DetectedQuestion
  | ErrorEvent error

text \<open>
  \<open>QuestionDetector.ts\<close> is imported by the class and is not among the sources. Its two
  methods are parameters of the model: \<open>detectQuestion\<close> returns a question or
  \<open>null\<close>, \<open>isValidQuestion\<close> a boolean; both are taken to return normally.
\<close>

record detector =
  detectQuestion :: "TranscriptionResult \<Rightarrow> DetectedQuestion option"
  isValidQuestion :: "DetectedQuestion \<Rightarrow> bool"

text \<open>
  A chunk handed to \<open>transcribeChunk\<close> stays in flight from the first file-system
  \<open>await\<close> to the last (writing the temporary file, the transcription request, deleting
  the file); the fields of the object are neither read nor written in between. The model
  keeps the chunks in flight in the field \<open>inFlight\<close>, each with the call that awaits it:
  \<open>processAudioChunk\<close>, or the streaming detection, which attaches \<open>.catch\<close> to the
  promise and does not await it.

  \<open>processAudioChunk\<close> also gives up control at \<open>await this.shouldCreateChunk()\<close>,
  after the decision is computed and before it is acted on; other continuations of the
  same tick may run in between. The field \<open>awaitingDecision\<close> holds the decisions of
  the calls suspended there.

  The class extends \<open>EventEmitter\<close> and registers no listener itself; its consumer
  does, with the inherited \<open>on\<close>. What the code below depends on is whether the
  \<open>error\<close> event has a listener: the field \<open>errorListeners\<close> is the emitter's
  \<open>listenerCount('error')\<close>.
\<close>

datatype origin = FromIngestion | FromStreaming

record processor =
  state :: AudioStreamState
  config :: AudioStreamConfig
  currentAudioData :: "rat list list"
  lastSilenceTime :: int
  wordCount :: int
  lastChunkTime :: int
  accumulatedSamples :: nat
  recentAudioBuffer :: "jsstring list"
  lastQuestionHintTime :: int
  streamingBuffer :: jsstring
  lastStreamingCheck :: int
  inFlight :: "(origin \<times> AudioChunk) list"
  awaitingDecision :: "bool list"
  errorListeners :: nat

section \<open>The stream orchestrator\<close>

text \<open>
  Each function takes the object and returns it updated, with the events it emitted in
  order. \<open>emit\<close> appends to the trace, and listeners are taken to return normally.
  The event \<open>error\<close> is the exception: an emitter with no listener for it throws the
  error out of \<open>emit\<close> instead of delivering it (\<open>emitError\<close> below), so every
  \<open>catch\<close> clause of the class that emits the error it caught throws it again when
  nobody listens. Every function that reads the clock takes one reading \<open>now\<close> for
  the whole of its synchronous run.
\<close>

definition defaultConfig :: AudioStreamConfig where
  "defaultConfig =
     \<lparr>sampleRate = 16000, chunkDuration = 1000, silenceThreshold = 800, maxWords = 40,
      questionDetectionEnabled = True, batchInterval = 0, maxBatchSize = 0\<rparr>"

definition newProcessor :: "AudioStreamConfig \<Rightarrow> processor" where
  "newProcessor cfg =
     \<lparr>state = \<lparr>isListening = False, isProcessing = False, lastActivityTime = 0, questionBuffer = []\<rparr>,
      config = cfg, currentAudioData = [], lastSilenceTime = 0, wordCount = 0, lastChunkTime = 0,
      accumulatedSamples = 0, recentAudioBuffer = [], lastQuestionHintTime = 0,
      streamingBuffer = [], lastStreamingCheck = 0, inFlight = [],
      awaitingDecision = [], errorListeners = 0\<rparr>"

text \<open>The constructor, given the configuration already merged with the defaults.\<close>

definition constructor :: "jsstring \<Rightarrow> AudioStreamConfig \<Rightarrow> error + processor" where
  "constructor openaiApiKey cfg =
     (if openaiApiKey = [] \<or> trim openaiApiKey = []
      then Inl (Error ''OpenAI API key is required for AudioStreamProcessor'')
      else Inr (newProcessor cfg))"

text \<open>
  \<open>this.emit('error', e)\<close>: with a listener the event is delivered and the call returns;
  with none the call throws (the error itself, or the emitter's wrapper of a value that
  is not an \<open>Error\<close>; the model has one type of errors) and nothing is delivered. The
  first component is what the call throws, \<open>None\<close> when it returns.
\<close>

definition emitError :: "processor \<Rightarrow> error \<Rightarrow> error option \<times> event list" where
  "emitError p e = (if errorListeners p = 0 then (Some e, []) else (None, [ErrorEvent e]))"

text \<open>\<open>on('error', listener)\<close>, inherited from the emitter and called by the consumer.\<close>

definition onError :: "processor \<Rightarrow> processor" where
  "onError p = p\<lparr>errorListeners := Suc (errorListeners p)\<rparr>"

definition startListening :: "processor \<Rightarrow> int \<Rightarrow> processor \<times> event list" where
  "startListening p now =
     (if isListening (state p) then (p, [])
      else let p' = p\<lparr>state := (state p)\<lparr>isListening := True, lastActivityTime := now\<rparr>\<rparr>
           in (p', [StateChanged (state p')]))"

definition stopListening :: "processor \<Rightarrow> processor \<times> event list" where
  "stopListening p =
     (if \<not> isListening (state p) then (p, [])
      else let p' = p\<lparr>state := (state p)\<lparr>isListening := False, isProcessing := False\<rparr>,
                       currentAudioData := [], wordCount := 0\<rparr>
           in (p', [StateChanged (state p')]))"

definition clearQuestions :: "processor \<Rightarrow> processor \<times> event list" where
  "clearQuestions p =
     (let p' = p\<lparr>state := (state p)\<lparr>questionBuffer := []\<rparr>\<rparr>
      in (p', [StateChanged (state p')]))"

subsection \<open>Ingestion\<close>

text \<open>\<open>audioData.readInt16LE(i * 2)\<close>: the signed 16-bit value of two bytes, low byte first.\<close>

definition readInt16LE :: "8 word \<Rightarrow> 8 word \<Rightarrow> int" where
  "readInt16LE lo hi =
     (let u = unat lo + 256 * unat hi
      in if u < 32768 then int u else int u - 65536)"

text \<open>The conversion loop. \<open>new Float32Array(audioData.length / 2)\<close> has the integer part of
  the quotient as its length, so the last byte of an odd buffer is not read.\<close>

fun readSamples :: "8 word list \<Rightarrow> rat list" where
  "readSamples (lo # hi # rest) = (of_int (readInt16LE lo hi) / 32768) # readSamples rest"
| "readSamples [lo] = []"
| "readSamples [] = []"

definition quickQuestionPatterns :: "jsstring list" where
  "quickQuestionPatterns =
    [
     [h_do, h_u], [h_do, h_no], [h_do, h_ko], [h_i, h_tu], [h_na, h_ze],
     [h_na, h_n], [k_nani], [h_da, h_re], [k_dare], [h_de, h_su, h_ka],
     [h_ma, h_su, h_ka], [h_de, h_si, h_xyo, h_u, h_ka], [h_ka, c_qm], [h_ka, c_stop]
    ]"

definition hasQuestionPattern :: "processor \<Rightarrow> bool" where
  "hasQuestionPattern p =
     some (\<lambda>pattern. includesStr (toLowerCase (join [a_space] (recentAudioBuffer p))) pattern)
       quickQuestionPatterns"

definition hasRecentQuestionActivity :: "processor \<Rightarrow> int \<Rightarrow> bool \<times> processor" where
  "hasRecentQuestionActivity p now =
     (if now - lastQuestionHintTime p < 3000 then (True, p)
      else if hasQuestionPattern p then (True, p\<lparr>lastQuestionHintTime := now\<rparr>)
      else (False, p))"

text \<open>
  \<open>accumulatedDuration >= 2000\<close> with \<open>accumulatedDuration = (accumulatedSamples /
  sampleRate) * 1000\<close>, in exact arithmetic. For a sample rate of zero the quotient is
  \<open>Infinity\<close> when samples are accumulated and \<open>NaN\<close> when none is.
\<close>

definition shouldCreateByDuration :: "processor \<Rightarrow> bool" where
  "shouldCreateByDuration p \<longleftrightarrow>
     (if sampleRate (config p) = 0 then accumulatedSamples p > 0
      else (of_nat (accumulatedSamples p) / of_nat (sampleRate (config p))) * 1000 \<ge> (2000 :: rat))"

definition shouldCreateByTime :: "processor \<Rightarrow> int \<Rightarrow> bool" where
  "shouldCreateByTime p now \<longleftrightarrow> now - lastChunkTime p \<ge> 4000"

definition shouldCreateByWords :: "processor \<Rightarrow> bool" where
  "shouldCreateByWords p \<longleftrightarrow> wordCount p \<ge> maxWords (config p)"

definition shouldCreateChunk :: "processor \<Rightarrow> int \<Rightarrow> bool \<times> processor" where
  "shouldCreateChunk p now =
     (case hasRecentQuestionActivity p now of
        (shouldCreateByQuestionHint, p') \<Rightarrow>
          (shouldCreateByDuration p \<or> shouldCreateByTime p now \<or> shouldCreateByWords p \<or>
           shouldCreateByQuestionHint, p'))"

text \<open>\<open>transcribeChunk\<close> up to its first \<open>await\<close>; \<open>caller\<close> is the call that awaits the chunk.\<close>

definition transcribeChunk :: "origin \<Rightarrow> processor \<Rightarrow> AudioChunk \<Rightarrow> processor \<times> event list" where
  "transcribeChunk caller p chunk =
     (if \<not> questionDetectionEnabled (config p) then (p, [])
      else let p' = p\<lparr>state := (state p)\<lparr>isProcessing := True\<rparr>\<rparr>
           in (p'\<lparr>inFlight := inFlight p' @ [(caller, chunk)]\<rparr>, [StateChanged (state p')]))"

definition createAndProcessChunk :: "origin \<Rightarrow> processor \<Rightarrow> int \<Rightarrow> processor \<times> event list" where
  "createAndProcessChunk caller p now =
     (if length (currentAudioData p) = 0 then (p, [])
      else let chunk = \<lparr>chunk_data = concat (currentAudioData p), chunk_timestamp = now,
                         chunk_wordCount = wordCount p\<rparr>;
               p' = p\<lparr>currentAudioData := [], wordCount := 0, accumulatedSamples := 0,
                       lastChunkTime := now\<rparr>
           in (case transcribeChunk caller p' chunk of
                 (p'', evs) \<Rightarrow> (p'', ChunkRecorded chunk # evs)))"

text \<open>The statements of \<open>processAudioChunk\<close> before \<open>shouldCreateChunk\<close>.\<close>

definition accumulate :: "processor \<Rightarrow> int \<Rightarrow> 8 word list \<Rightarrow> processor" where
  "accumulate p now audioData =
     (let float32Array = readSamples audioData;
          p' = p\<lparr>currentAudioData := currentAudioData p @ [float32Array],
                  accumulatedSamples := accumulatedSamples p + length float32Array,
                  state := (state p)\<lparr>lastActivityTime := now\<rparr>\<rparr>
      in if lastChunkTime p' = 0 then p'\<lparr>lastChunkTime := now\<rparr> else p')"

text \<open>
  \<open>processAudioChunk\<close> in two parts, up to \<open>await this.shouldCreateChunk()\<close> and from
  there to the point where it waits for the transcription. Nothing in its \<open>try\<close> block
  throws before that point, so the handler stands only in \<open>callerResume\<close> below.
\<close>

definition processAudioChunkBegin :: "processor \<Rightarrow> int \<Rightarrow> 8 word list \<Rightarrow> processor" where
  "processAudioChunkBegin p now audioData =
     (if \<not> isListening (state p) then p
      else (case shouldCreateChunk (accumulate p now audioData) now of
              (shouldCreate, p') \<Rightarrow>
                p'\<lparr>awaitingDecision := awaitingDecision p' @ [shouldCreate]\<rparr>))"

definition processAudioChunkResume :: "processor \<Rightarrow> int \<Rightarrow> bool \<Rightarrow> processor \<times> event list" where
  "processAudioChunkResume p now shouldCreate =
     (if shouldCreate then createAndProcessChunk FromIngestion p now else (p, []))"

text \<open>The call when nothing runs between its two parts.\<close>

definition processAudioChunk :: "processor \<Rightarrow> int \<Rightarrow> 8 word list \<Rightarrow> processor \<times> event list" where
  "processAudioChunk p now audioData =
     (if \<not> isListening (state p) then (p, [])
      else (case shouldCreateChunk (accumulate p now audioData) now of
              (shouldCreate, p') \<Rightarrow> processAudioChunkResume p' now shouldCreate))"

subsection \<open>Streaming detection\<close>

text \<open>
  The eight patterns of \<open>streamingQuestionPatterns\<close>. A bracket of the source such as
  the one after \<open>do-u\<close> is a character class: it matches one of the characters written
  in it, the bar included.
\<close>

definition isKaOrQuestionMark :: "nat \<Rightarrow> bool" where
  "isKaOrQuestionMark c \<longleftrightarrow> c \<in> set [h_ka, c_qm]"

definition isQuestionMarkOrStop :: "nat \<Rightarrow> bool" where
  "isQuestionMarkOrStop c \<longleftrightarrow> c \<in> set [c_qm, c_stop]"

definition streamingQuestionPatterns :: "matcher list" where
  "streamingQuestionPatterns =
    [lit [h_do, h_u]
       (cls (\<lambda>c. c \<in> set [h_de, h_su, a_bar, h_de, h_si, h_xyo, h_u, a_bar, k_omo, h_i, a_bar, k_kanga, h_e])
         (dotStar (cls isKaOrQuestionMark accept))),
     lit [k_nani]
       (cls (\<lambda>c. c \<in> set [h_ga, a_bar, h_wo, a_bar, h_de, a_bar, h_ni])
         (dotStar (cls isKaOrQuestionMark accept))),
     lit [h_i, h_tu] (dotStar (cls isKaOrQuestionMark accept)),
     lit [h_do, h_ko] (dotStar (cls isKaOrQuestionMark accept)),
     lit [h_da, h_re] (dotStar (cls isKaOrQuestionMark accept)),
     lit [h_na, h_ze] (dotStar (cls isKaOrQuestionMark accept)),
     cls (\<lambda>c. c \<in> set [h_de, h_su, a_bar, h_ma, h_su]) (lit [h_ka] (cls isQuestionMarkOrStop accept)),
     lit [h_de, h_si, h_xyo, h_u, h_ka] (cls isQuestionMarkOrStop accept)]"

definition hasStreamingQuestion :: "jsstring \<Rightarrow> bool" where
  "hasStreamingQuestion streamingText =
     some (\<lambda>pattern. test pattern streamingText) streamingQuestionPatterns"

text \<open>The first two statements: append, then keep the last 500 code units.\<close>

definition appendStreaming :: "jsstring \<Rightarrow> jsstring \<Rightarrow> jsstring" where
  "appendStreaming buffer newText =
     (let b = buffer @ [a_space] @ newText
      in if length b > 500 then sliceLast 500 b else b)"

definition performStreamingQuestionDetection ::
    "processor \<Rightarrow> int \<Rightarrow> jsstring \<Rightarrow> processor \<times> event list" where
  "performStreamingQuestionDetection p now newText =
     (let p1 = p\<lparr>streamingBuffer := appendStreaming (streamingBuffer p) newText\<rparr>
      in if now - lastStreamingCheck p1 < 500 then (p1, [])
         else let p2 = p1\<lparr>lastStreamingCheck := now\<rparr>
              in if hasStreamingQuestion (trim (toLowerCase (streamingBuffer p2)))
                 then (case (if length (currentAudioData p2) > 0
                             then createAndProcessChunk FromStreaming p2 now else (p2, [])) of
                         (p3, evs) \<Rightarrow> (p3\<lparr>streamingBuffer := []\<rparr>, evs))
                 else (p2, []))"

definition updateRecentAudioBuffer :: "processor \<Rightarrow> jsstring \<Rightarrow> processor" where
  "updateRecentAudioBuffer p text =
     (if text = [] \<or> length (trim text) = 0 then p
      else let buffer = recentAudioBuffer p @ [toLowerCase text]
           in p\<lparr>recentAudioBuffer := (if length buffer > 10 then tl buffer else buffer)\<rparr>)"

subsection \<open>Detection and refinement\<close>

text \<open>The callback of \<open>questionParts.map\<close>; \<open>None\<close> is its \<open>null\<close>.\<close>

definition refinePart ::
    "detector \<Rightarrow> TranscriptionResult \<Rightarrow> DetectedQuestion option \<Rightarrow> jsstring \<Rightarrow> DetectedQuestion option" where
  "refinePart det transcription detectedQuestion part =
     (let core = trimPreface part
      in if core = [] \<or> length (trim core) < 2 then None
         else let tempQuestion =
                   \<lparr>q_text = trim core,
                    q_timestamp = (case detectedQuestion of Some d \<Rightarrow> q_timestamp d
                                   | None \<Rightarrow> tr_timestamp transcription),
                    q_confidence = (case detectedQuestion of Some d \<Rightarrow> q_confidence d
                                    | None \<Rightarrow> tr_confidence transcription),
                    refinedText = None\<rparr>
              in if \<not> isValidQuestion det tempQuestion \<and> \<not> looksLikeQuestion core then None
                 else Some (tempQuestion\<lparr>refinedText := Some (refineQuestionAlgorithmically core)\<rparr>))"

definition baseText :: "detector \<Rightarrow> TranscriptionResult \<Rightarrow> jsstring" where
  "baseText det transcription =
     (case detectQuestion det transcription of
        Some d \<Rightarrow> q_text d
      | None \<Rightarrow> tr_text transcription)"

text \<open>The questions the function emits, in the order of the loop over \<open>allQuestions\<close>;
  the list is empty on each early return.\<close>

definition allQuestions :: "detector \<Rightarrow> TranscriptionResult \<Rightarrow> DetectedQuestion list" where
  "allQuestions det transcription =
     (if tr_text transcription = [] \<or> length (trim (tr_text transcription)) < 3 then []
      else List.map_filter
             (refinePart det transcription (detectQuestion det transcription))
             (splitIntoQuestions (baseText det transcription)))"

definition detectAndRefineQuestions ::
    "detector \<Rightarrow> processor \<Rightarrow> TranscriptionResult \<Rightarrow> processor \<times> event list" where
  "detectAndRefineQuestions det p transcription =
     (let questions = allQuestions det transcription;
          p' = p\<lparr>state := (state p)\<lparr>questionBuffer := questionBuffer (state p) @ questions\<rparr>\<rparr>
      in (p', map QuestionDetected questions @
              (if length questions > 0 then [StateChanged (state p')] else [])))"

subsection \<open>Completion of a transcription\<close>

text \<open>
  The \<open>try\<close> block of \<open>transcribeChunk\<close> after its last \<open>await\<close>. \<open>response\<close> is what
  the awaited calls gave: a failure of the file system or of the transcription service,
  or the text of the transcript.
\<close>

definition transcribeTry ::
    "detector \<Rightarrow> processor \<Rightarrow> int \<Rightarrow> AudioChunk \<Rightarrow> error + jsstring \<Rightarrow> error + processor \<times> event list" where
  "transcribeTry det p now chunk response =
     (case response of
        Inl e \<Rightarrow> Inl e
      | Inr text \<Rightarrow>
          let result = \<lparr>tr_text = text, tr_timestamp = chunk_timestamp chunk, tr_confidence = 1,
                        tr_isQuestion = False\<rparr>
          in (case performStreamingQuestionDetection (updateRecentAudioBuffer p text) now text of
                (p1, evs1) \<Rightarrow>
                  (case (if trim text \<noteq> [] then detectAndRefineQuestions det p1 result else (p1, [])) of
                     (p2, evs2) \<Rightarrow> Inr (p2, TranscriptionCompleted result # evs1 @ evs2))))"

text \<open>
  The \<open>catch\<close> and \<open>finally\<close> clauses of \<open>transcribeChunk\<close>. The handler emits the
  error; when that throws, the \<open>finally\<close> clause still runs and the function then
  throws to its caller. The first component of the result is the error the function
  throws, \<open>None\<close> when it returns.
\<close>

definition transcribeChunkResume ::
    "detector \<Rightarrow> processor \<Rightarrow> int \<Rightarrow> AudioChunk \<Rightarrow> error + jsstring
      \<Rightarrow> error option \<times> processor \<times> event list" where
  "transcribeChunkResume det p now chunk response =
     (case (case transcribeTry det p now chunk response of
              Inl e \<Rightarrow> (case emitError p e of (thrown, evs) \<Rightarrow> (thrown, p, evs))
            | Inr r \<Rightarrow> (None, r)) of
        (thrown, p1, evs) \<Rightarrow>
          let p2 = p1\<lparr>state := (state p1)\<lparr>isProcessing := False\<rparr>\<rparr>
          in (thrown, p2, evs @ [StateChanged (state p2)]))"

text \<open>The handler of a \<open>catch (error)\<close> clause of \<open>createAndProcessChunk\<close> and of
  \<open>processAudioChunk\<close>: both emit the error, clear \<open>isListening\<close> and emit the state.
  When emitting the error throws, the other two statements are not reached and the
  function throws in its turn.\<close>

definition failSafeStop :: "error option \<Rightarrow> processor \<Rightarrow> error option \<times> processor \<times> event list" where
  "failSafeStop thrown p =
     (case thrown of
        None \<Rightarrow> (None, p, [])
      | Some e \<Rightarrow>
          (case emitError p e of
             (Some e', evs) \<Rightarrow> (Some e', p, evs)
           | (None, evs) \<Rightarrow>
               let p' = p\<lparr>state := (state p)\<lparr>isListening := False\<rparr>\<rparr>
               in (None, p', evs @ [StateChanged (state p')])))"

text \<open>
  The caller of \<open>createAndProcessChunk\<close>: \<open>processAudioChunk\<close> awaits it in its \<open>try\<close>
  block; the streaming detection only logs a rejection, in the handler it attached with
  \<open>.catch\<close>.
\<close>

definition callerResume ::
    "origin \<Rightarrow> error option \<Rightarrow> processor \<Rightarrow> error option \<times> processor \<times> event list" where
  "callerResume caller thrown p =
     (case caller of
        FromIngestion \<Rightarrow> failSafeStop thrown p
      | FromStreaming \<Rightarrow> (None, p, []))"

text \<open>
  The whole continuation that runs when the awaited calls of a chunk in flight settle:
  \<open>transcribeChunk\<close>, then \<open>createAndProcessChunk\<close>, then its caller. The first component
  is the error the promise of the caller is rejected with, \<open>None\<close> when it is resolved:
  for \<open>FromIngestion\<close> that promise is the one \<open>processAudioChunk\<close> returned to the
  code that submitted the batch.

  On a failure the handler and the \<open>finally\<close> clause of \<open>transcribeChunk\<close> run without
  giving up control. On a transcript the function gives up control once more, at
  \<open>await this.detectAndRefineQuestions(result)\<close>, before the questions are pushed and
  the processing flag is cleared; the promises awaited there settle with no further
  input, and the model runs through them in the same step, so a session of the model
  places no other call between the arrival of a transcript and the end of its
  processing. The callers resume one tick after another; for them too the model takes
  the listeners of one step to be those at its start.
\<close>

definition completeTranscription ::
    "detector \<Rightarrow> processor \<Rightarrow> int \<Rightarrow> origin \<times> AudioChunk \<Rightarrow> error + jsstring
      \<Rightarrow> error option \<times> processor \<times> event list" where
  "completeTranscription det p now pending response =
     (case transcribeChunkResume det p now (snd pending) response of
        (thrown1, p1, evs1) \<Rightarrow>
          (case failSafeStop thrown1 p1 of
             (thrown2, p2, evs2) \<Rightarrow>
               (case callerResume (fst pending) thrown2 p2 of
                  (thrown3, p3, evs3) \<Rightarrow> (thrown3, p3, evs1 @ evs2 @ evs3))))"

subsection \<open>Sessions\<close>

text \<open>
  What the environment does to the object, each step one uninterrupted run of the code:
  the calls of the control surface, with \<open>processAudioChunk\<close> either as a whole
  (\<open>Submit\<close>) or as its first part (\<open>Ingest\<close>) followed, any number of steps later, by
  its second part (\<open>Decide i\<close>, for the \<open>i\<close>-th suspended call); and the settling of
  the awaited calls of the \<open>i\<close>-th chunk in flight (\<open>Settle i\<close>), which runs
  \<open>completeTranscription\<close> and drops the settlement of the caller's promise; and the
  registration of a listener for the \<open>error\<close> event (\<open>OnError\<close>). The calls of
  the emitter that take listeners away are not steps; the statements about one step hold
  for every number of listeners the object may have. \<open>destroy\<close> ends the life of the
  object and is not a step.
\<close>

datatype action =
    Start int
  | Stop
  | Submit "8 word list" int
  | Ingest "8 word list" int
  | Decide nat int
  | Settle nat "error + jsstring" int
  | ClearQuestions
  | OnError

definition step :: "detector \<Rightarrow> processor \<Rightarrow> action \<Rightarrow> processor \<times> event list" where
  "step det p a =
     (case a of
        Start now \<Rightarrow> startListening p now
      | Stop \<Rightarrow> stopListening p
      | Submit audioData now \<Rightarrow> processAudioChunk p now audioData
      | Ingest audioData now \<Rightarrow> (processAudioChunkBegin p now audioData, [])
      | Decide i now \<Rightarrow>
          (if i < length (awaitingDecision p)
           then processAudioChunkResume
                  (p\<lparr>awaitingDecision :=
                       take i (awaitingDecision p) @ drop (Suc i) (awaitingDecision p)\<rparr>)
                  now (awaitingDecision p ! i)
           else (p, []))
      | Settle i response now \<Rightarrow>
          (if i < length (inFlight p)
           then snd (completeTranscription det
                       (p\<lparr>inFlight := take i (inFlight p) @ drop (Suc i) (inFlight p)\<rparr>)
                       now (inFlight p ! i) response)
           else (p, []))
      | ClearQuestions \<Rightarrow> clearQuestions p
      | OnError \<Rightarrow> (onError p, []))"

fun run :: "detector \<Rightarrow> processor \<Rightarrow> action list \<Rightarrow> processor \<times> event list" where
  "run det p [] = (p, [])"
| "run det p (a # as) =
     (case step det p a of
        (p1, evs1) \<Rightarrow> (case run det p1 as of (p2, evs2) \<Rightarrow> (p2, evs1 @ evs2)))"

section \<open>Notions the statements use\<close>

text \<open>The chunks of the \<open>chunk-recorded\<close> events and the questions of the
  \<open>question-detected\<close> events of a trace, in order.\<close>

fun chunksRecorded :: "event list \<Rightarrow> AudioChunk list" where
  "chunksRecorded [] = []"
| "chunksRecorded (ChunkRecorded c # evs) = c # chunksRecorded evs"
| "chunksRecorded (e # evs) = chunksRecorded evs"

fun questionsDetected :: "event list \<Rightarrow> DetectedQuestion list" where
  "questionsDetected [] = []"
| "questionsDetected (QuestionDetected q # evs) = q # questionsDetected evs"
| "questionsDetected (e # evs) = questionsDetected evs"

fun errorsEmitted :: "event list \<Rightarrow> error list" where
  "errorsEmitted [] = []"
| "errorsEmitted (ErrorEvent e # evs) = e # errorsEmitted evs"
| "errorsEmitted (e # evs) = errorsEmitted evs"

text \<open>
  The accounts of a session: the samples \<open>processAudioChunk\<close> took in while listening,
  and the samples that left the accumulator, where a step's chunks count with their data
  and a \<open>stopListening\<close> while listening counts with the audio it discards. Both follow
  the run of the model from the state \<open>p\<close>.
\<close>

definition takenBy :: "processor \<Rightarrow> action \<Rightarrow> rat list" where
  "takenBy p a =
     (case a of
        Submit audioData now \<Rightarrow> if isListening (state p) then readSamples audioData else []
      | Ingest audioData now \<Rightarrow> if isListening (state p) then readSamples audioData else []
      | _ \<Rightarrow> [])"

fun ingestedSamples :: "detector \<Rightarrow> processor \<Rightarrow> action list \<Rightarrow> rat list" where
  "ingestedSamples det p [] = []"
| "ingestedSamples det p (a # as) = takenBy p a @ ingestedSamples det (fst (step det p a)) as"

definition discardedBy :: "processor \<Rightarrow> action \<Rightarrow> rat list" where
  "discardedBy p a =
     (case a of
        Stop \<Rightarrow> if isListening (state p) then concat (currentAudioData p) else []
      | _ \<Rightarrow> [])"

fun discardedSamples :: "detector \<Rightarrow> processor \<Rightarrow> action list \<Rightarrow> rat list" where
  "discardedSamples det p [] = []"
| "discardedSamples det p (a # as) =
     discardedBy p a @ discardedSamples det (fst (step det p a)) as"

fun drainedSamples :: "detector \<Rightarrow> processor \<Rightarrow> action list \<Rightarrow> rat list" where
  "drainedSamples det p [] = []"
| "drainedSamples det p (a # as) =
     concat (map chunk_data (chunksRecorded (snd (step det p a)))) @ discardedBy p a @
     drainedSamples det (fst (step det p a)) as"

text \<open>
  A detector that finds no question and accepts none: with it the pipeline decides by
  the heuristics of the class alone.
\<close>

definition nullDetector :: detector where
  "nullDetector = \<lparr>detectQuestion = (\<lambda>t. None), isValidQuestion = (\<lambda>q. False)\<rparr>"

text \<open>
  A session in which all triggers meet: a batch of one sample is discarded by a stop; after
  the restart a batch of two samples is cut by the time limit; one more sample is
  ingested and the boundary policy decides to cut (the time limit again), but before the
  call goes on the transcript \<open>i-tu-de-su-ka\<close> of the first chunk arrives and the
  streaming detection cuts that sample, so the call finds the accumulator empty; the next
  sample is cut at once by the question hint the transcript left; the session is stopped.
\<close>

definition exampleSession :: "action list" where
  "exampleSession =
     [Start 100000, Submit [0, 64] 100000, Stop, Start 100001, Submit [0, 64, 0, 64] 104000,
      Ingest [0, 64] 108000, Settle 0 (Inr [h_i, h_tu, h_de, h_su, h_ka]) 108000,
      Decide 0 108000, Submit [0, 64] 108001, Stop]"

text \<open>
  A session that leaves one chunk in flight: the first batch opens the accumulation, the
  second arrives four seconds later and is cut by the time limit.
\<close>

definition oneChunkSession :: "action list" where
  "oneChunkSession = [Start 100000, Submit [0, 64] 100000, Submit [0, 64] 104000]"

text \<open>
  A session stopped with audio pending and started again: one batch of 31999 samples of
  silence (63998 bytes; at 16 kHz, one sample short of two seconds), a stop, a start.
  \<open>afterRestart\<close> is the object this leaves.
\<close>

definition restartedSession :: "action list" where
  "restartedSession = [Start 100000, Submit (replicate 63998 0) 100000, Stop, Start 100001]"

text \<open>The counter of samples says what the accumulator holds.\<close>

definition counterInSync :: "processor \<Rightarrow> bool" where
  "counterInSync p \<longleftrightarrow> accumulatedSamples p = length (concat (currentAudioData p))"

definition afterRestart :: processor where
  "afterRestart = fst (run nullDetector (newProcessor defaultConfig) restartedSession)"

text \<open>
  The transcripts the specification names: a question about today's schedule after the
  filler \<open>e-to\<close> and a comma; two fillers, each with a comma, and a question mark; two
  questions joined by the connector \<open>so-re-ka-ra\<close>.
\<close>

definition yoteiTranscript :: jsstring where
  "yoteiTranscript =
     [h_e, c_long, h_to, c_comma, k_kon, k_nichi, h_no, k_yo, k_tei, h_ha, h_do, h_u, h_na,
      h_xtu, h_te, h_i, h_ma, h_su, h_ka, c_qm]"


definition twoQuestionsTranscript :: jsstring where
  "twoQuestionsTranscript =
     [k_nani, k_ji, h_ni, k_haji, h_ma, h_ri, h_ma, h_su, h_ka, c_qm, h_so, h_re, h_ka, h_ra,
      k_dare, h_ga, k_san, k_ka, h_si, h_ma, h_su, h_ka, c_qm]"

text \<open>What a result (the object and its events) gave out in chunks and still holds.\<close>

definition held :: "processor \<times> event list \<Rightarrow> rat list" where
  "held r = concat (map chunk_data (chunksRecorded (snd r))) @ concat (currentAudioData (fst r))"

text \<open>The invariant of a session: an idle object holds no audio.\<close>

definition idleEmpty :: "processor \<Rightarrow> bool" where
  "idleEmpty p \<longleftrightarrow> isListening (state p) \<or> currentAudioData p = []"

text \<open>
  \<open>inOrder ps t\<close>: the strings \<open>ps\<close> occur in \<open>t\<close> one after the other, from left to
  right and without overlap.
\<close>

fun inOrder :: "'a list list \<Rightarrow> 'a list \<Rightarrow> bool" where
  "inOrder [] t = True"
| "inOrder (p # ps) [] = (p = [] \<and> inOrder ps [])"
| "inOrder (p # ps) (c # t) =
     ((startsWith (c # t) p \<and> inOrder ps (drop (length p) (c # t))) \<or> inOrder (p # ps) t)"


section \<open>Evaluation on concrete inputs\<close>

text \<open>The definitions the simplifier unfolds to run the text functions and the
  orchestrator on explicit inputs.\<close>

lemmas text_defs =
  isLineTerminator_def isWhiteSpace_def trim_def isLatinLetter_def toLowerCase_def
  toUpperCase_def endsWith_def sliceLast_def splitOnRuns_def splitOnChars_def accept_def
  eos_def lit_def cls_def optCls_def alts_def optAlts_def clsPlus_def dotStar_def
  fillerWords_def isFiller_def questionStarters_def interrogatives_def questionEndings_def
  politeRequests_def isQuestionMark_def questionPatterns_def looksLikeQuestion_def
  isSentenceDelimiter_def connectors_def kaEndings_def politeEndings_def
  splitByQuestionMarks_def splitByConnector_def splitByConnectors_def isQuestionPart_def
  stripTrailingCommas_def sentenceParts_def splitIntoQuestions_def leadingPreface_def
  keepTopicPattern_def matchLeadingPreface_def trimPreface_def isTokenSeparator_def
  trailingParticles_def tokens_def refineCore_def ensureQuestionMark_def capitalizeFirst_def
  refinedCandidate_def tooAggressive_def refineQuestionAlgorithmically_def Let_def
  numeral_3_eq_3

lemmas orchestrator_defs =
  stopListening_def processAudioChunk_def processAudioChunkBegin_def
  processAudioChunkResume_def startListening_def newProcessor_def
  defaultConfig_def shouldCreateChunk_def accumulate_def hasRecentQuestionActivity_def
  hasQuestionPattern_def shouldCreateByDuration_def shouldCreateByTime_def
  shouldCreateByWords_def quickQuestionPatterns_def createAndProcessChunk_def
  transcribeChunk_def readInt16LE_def toLowerCase_def Let_def

section \<open>Basic facts\<close>

lemma length_readSamples: "length (readSamples bs) = length bs div 2"
  by (induction bs rule: readSamples.induct) simp_all

lemma accumulate_fields:
  "accumulatedSamples (accumulate p now bs) = accumulatedSamples p + length bs div 2"
  "lastChunkTime (accumulate p now bs) = (if lastChunkTime p = 0 then now else lastChunkTime p)"
  "wordCount (accumulate p now bs) = wordCount p"
  "config (accumulate p now bs) = config p"
  "lastQuestionHintTime (accumulate p now bs) = lastQuestionHintTime p"
  "recentAudioBuffer (accumulate p now bs) = recentAudioBuffer p"
  "currentAudioData (accumulate p now bs) = currentAudioData p @ [readSamples bs]"
  by (simp_all add: accumulate_def Let_def length_readSamples)

lemma chunks_createAndProcessChunk:
  "currentAudioData p \<noteq> [] \<Longrightarrow>
   chunksRecorded (snd (createAndProcessChunk caller p now)) =
     [\<lparr>chunk_data = concat (currentAudioData p), chunk_timestamp = now,
       chunk_wordCount = wordCount p\<rparr>]"
  by (simp add: createAndProcessChunk_def transcribeChunk_def Let_def)


lemma hint_createAndProcessChunk:
  "lastQuestionHintTime (fst (createAndProcessChunk caller p now)) = lastQuestionHintTime p"
  by (simp add: createAndProcessChunk_def transcribeChunk_def Let_def)

lemma shouldCreateByDuration_iff:
  "0 < sampleRate (config q) \<Longrightarrow>
   shouldCreateByDuration q \<longleftrightarrow> 2000 * sampleRate (config q) \<le> 1000 * accumulatedSamples q"
  apply (simp add: shouldCreateByDuration_def)
  apply (simp add: field_simps)
  by (metis (no_types, opaque_lifting) of_nat_le_iff of_nat_mult of_nat_numeral mult.commute)

lemma hasQuestionPattern_accumulate:
  "hasQuestionPattern (accumulate p now bs) = hasQuestionPattern p"
  by (simp add: hasQuestionPattern_def accumulate_fields)






lemma questionsDetected_append:
  "questionsDetected (xs @ ys) = questionsDetected xs @ questionsDetected ys"
  by (induction xs rule: questionsDetected.induct) simp_all

lemma questionsDetected_map: "questionsDetected (map QuestionDetected qs) = qs"
  by (induction qs) simp_all

lemma questions_detectAndRefineQuestions:
  "questionsDetected (snd (detectAndRefineQuestions det p tr)) = allQuestions det tr"
  by (simp add: detectAndRefineQuestions_def Let_def questionsDetected_append
      questionsDetected_map)

section \<open>Ingestion while idle\<close>

text \<open>
  Claim C10. Submitting an audio batch while not listening is a no-op: the object (the
  state fields, the accumulation buffers and the counters) is returned as it was and no
  event is emitted, for the call itself and as a step of a session, where the call
  returns at its guard and leaves nothing suspended.
\<close>

theorem submit_while_idle_is_noop:
  "\<not> isListening (state p) \<Longrightarrow>
     processAudioChunk p now audioData = (p, []) \<and>
     step det p (Submit audioData now) = (p, []) \<and>
     step det p (Ingest audioData now) = (p, [])"
  by (simp add: processAudioChunk_def processAudioChunkBegin_def step_def)

theorem submit_while_idle_is_noop_witness:
  "\<not> isListening (state (newProcessor defaultConfig)) \<and>
   processAudioChunk (newProcessor defaultConfig) 5 [1, 2] = (newProcessor defaultConfig, []) \<and>
   step \<lparr>detectQuestion = (\<lambda>t. None), isValidQuestion = (\<lambda>q. False)\<rparr>
     (newProcessor defaultConfig) (Submit [1, 2] 5) = (newProcessor defaultConfig, []) \<and>
   step \<lparr>detectQuestion = (\<lambda>t. None), isValidQuestion = (\<lambda>q. False)\<rparr>
     (newProcessor defaultConfig) (Ingest [1, 2] 5) = (newProcessor defaultConfig, [])"
  using submit_while_idle_is_noop
    [of "newProcessor defaultConfig" 5 "[1, 2]"
        "\<lparr>detectQuestion = (\<lambda>t. None), isValidQuestion = (\<lambda>q. False)\<rparr>"]
  by (simp add: newProcessor_def)

section \<open>Failure of the transcription\<close>

lemma completeTranscription_failure:
  "completeTranscription det p now pending (Inl e) =
     (if errorListeners p = 0 \<and> fst pending = FromIngestion then Some e else None,
      p\<lparr>state := (state p)\<lparr>isProcessing := False\<rparr>\<rparr>,
      (if errorListeners p = 0 then [] else [ErrorEvent e]) @
      [StateChanged ((state p)\<lparr>isProcessing := False\<rparr>)])"
  by (cases "fst pending")
     (simp_all add: completeTranscription_def transcribeChunkResume_def transcribeTry_def
       failSafeStop_def callerResume_def emitError_def)

lemma oneChunkSession_run:
  "run nullDetector (newProcessor defaultConfig) oneChunkSession =
     ((newProcessor defaultConfig)
        \<lparr>state := \<lparr>isListening = True, isProcessing = True, lastActivityTime = 104000,
                   questionBuffer = []\<rparr>,
         lastChunkTime := 104000,
         inFlight := [(FromIngestion,
           \<lparr>chunk_data = [1 / 2, 1 / 2], chunk_timestamp = 104000, chunk_wordCount = 0\<rparr>)]\<rparr>,
      [StateChanged \<lparr>isListening = True, isProcessing = False, lastActivityTime = 100000,
                      questionBuffer = []\<rparr>,
       ChunkRecorded \<lparr>chunk_data = [1 / 2, 1 / 2], chunk_timestamp = 104000, chunk_wordCount = 0\<rparr>,
       StateChanged \<lparr>isListening = True, isProcessing = True, lastActivityTime = 104000,
                      questionBuffer = []\<rparr>])"
  by (simp add: oneChunkSession_def step_def orchestrator_defs)

text \<open>
  Claim C2 as stated fails on an object nobody listens to for errors. The session
  \<open>oneChunkSession\<close> starts the object as it is constructed, with no listener, and
  submits two batches; the second is cut by the time limit and its chunk is in flight.
  When the transcription of that chunk fails, no error event is delivered: \<open>emit\<close>
  throws in the handler of \<open>transcribeChunk\<close>, then in that of
  \<open>createAndProcessChunk\<close>, then in that of \<open>processAudioChunk\<close>, whose promise is
  rejected with the error. The processing flag is cleared and the object keeps listening.
\<close>

theorem unheard_gateway_failure_is_thrown:
  "inFlight (fst (run nullDetector (newProcessor defaultConfig) oneChunkSession)) =
     [(FromIngestion,
       \<lparr>chunk_data = [1 / 2, 1 / 2], chunk_timestamp = 104000, chunk_wordCount = 0\<rparr>)] \<and>
   errorListeners (fst (run nullDetector (newProcessor defaultConfig) oneChunkSession)) = 0 \<and>
   completeTranscription nullDetector
     ((fst (run nullDetector (newProcessor defaultConfig) oneChunkSession))\<lparr>inFlight := []\<rparr>)
     104500
     (FromIngestion,
      \<lparr>chunk_data = [1 / 2, 1 / 2], chunk_timestamp = 104000, chunk_wordCount = 0\<rparr>)
     (Inl (Error ''timeout'')) =
     (Some (Error ''timeout''),
      (newProcessor defaultConfig)
        \<lparr>state := \<lparr>isListening = True, isProcessing = False, lastActivityTime = 104000,
                   questionBuffer = []\<rparr>,
         lastChunkTime := 104000\<rparr>,
      [StateChanged \<lparr>isListening = True, isProcessing = False, lastActivityTime = 104000,
                      questionBuffer = []\<rparr>]) \<and>
   errorsEmitted (snd (run nullDetector (newProcessor defaultConfig)
     (oneChunkSession @ [Settle 0 (Inl (Error ''timeout'')) 104500]))) = []"
proof -
  have r: "run det p (as @ [a]) =
      (fst (step det (fst (run det p as)) a), snd (run det p as) @ snd (step det (fst (run det p as)) a))"
    for det p as a
    by (induction as arbitrary: p) (simp_all add: case_prod_beta)
  show ?thesis
    unfolding r oneChunkSession_run
    by (simp add: completeTranscription_failure step_def newProcessor_def)
qed

text \<open>
  Claim C2, amended. When the awaited calls of a chunk fail with the error \<open>e\<close>, the
  continuation leaves the processing flag false and the listening flag as it was. When
  the \<open>error\<close> event has a listener, it emits exactly one error event (that error) and
  the promise of the waiting call is resolved, not rejected (the first component is
  \<open>None\<close>); as a step of a session, the failure of a chunk in flight then removes the
  chunk, clears the processing flag and emits the error and the state, and nothing else.
\<close>

theorem heard_gateway_failure_is_contained:
  "isProcessing (state (fst (snd (completeTranscription det p now pending (Inl e))))) = False \<and>
   isListening (state (fst (snd (completeTranscription det p now pending (Inl e))))) =
     isListening (state p) \<and>
   (0 < errorListeners p \<longrightarrow>
      fst (completeTranscription det p now pending (Inl e)) = None \<and>
      errorsEmitted (snd (snd (completeTranscription det p now pending (Inl e)))) = [e] \<and>
      (i < length (inFlight p) \<longrightarrow>
         step det p (Settle i (Inl e) now) =
           (p\<lparr>inFlight := take i (inFlight p) @ drop (Suc i) (inFlight p),
              state := (state p)\<lparr>isProcessing := False\<rparr>\<rparr>,
            [ErrorEvent e, StateChanged ((state p)\<lparr>isProcessing := False\<rparr>)])))"
  by (simp add: completeTranscription_failure step_def)

theorem heard_gateway_failure_is_contained_witness:
  "0 < errorListeners (fst (run nullDetector (newProcessor defaultConfig) (OnError # oneChunkSession))) \<and>
   inFlight (fst (run nullDetector (newProcessor defaultConfig) (OnError # oneChunkSession))) =
     [(FromIngestion,
       \<lparr>chunk_data = [1 / 2, 1 / 2], chunk_timestamp = 104000, chunk_wordCount = 0\<rparr>)] \<and>
   fst (completeTranscription nullDetector
     ((fst (run nullDetector (newProcessor defaultConfig) (OnError # oneChunkSession)))
        \<lparr>inFlight := []\<rparr>)
     104500
     (FromIngestion,
      \<lparr>chunk_data = [1 / 2, 1 / 2], chunk_timestamp = 104000, chunk_wordCount = 0\<rparr>)
     (Inl (Error ''timeout''))) = None \<and>
   step nullDetector (fst (run nullDetector (newProcessor defaultConfig) (OnError # oneChunkSession)))
     (Settle 0 (Inl (Error ''timeout'')) 104500) =
     ((newProcessor defaultConfig)
        \<lparr>state := \<lparr>isListening = True, isProcessing = False, lastActivityTime = 104000,
                   questionBuffer = []\<rparr>,
         lastChunkTime := 104000, errorListeners := 1\<rparr>,
      [ErrorEvent (Error ''timeout''),
       StateChanged \<lparr>isListening = True, isProcessing = False, lastActivityTime = 104000,
                      questionBuffer = []\<rparr>])"
proof -
  have s: "fst (run nullDetector (newProcessor defaultConfig) (OnError # oneChunkSession)) =
     (newProcessor defaultConfig)
        \<lparr>state := \<lparr>isListening = True, isProcessing = True, lastActivityTime = 104000,
                   questionBuffer = []\<rparr>,
         lastChunkTime := 104000,
         inFlight := [(FromIngestion,
           \<lparr>chunk_data = [1 / 2, 1 / 2], chunk_timestamp = 104000, chunk_wordCount = 0\<rparr>)],
         errorListeners := 1\<rparr>"
    by (simp add: oneChunkSession_def step_def onError_def orchestrator_defs)
  show ?thesis
    unfolding s
    using heard_gateway_failure_is_contained
      [of nullDetector "(newProcessor defaultConfig)
        \<lparr>state := \<lparr>isListening = True, isProcessing = True, lastActivityTime = 104000,
                   questionBuffer = []\<rparr>,
         lastChunkTime := 104000,
         inFlight := [(FromIngestion,
           \<lparr>chunk_data = [1 / 2, 1 / 2], chunk_timestamp = 104000, chunk_wordCount = 0\<rparr>)],
         errorListeners := 1\<rparr>" 104500 _ "Error ''timeout''" 0]
      heard_gateway_failure_is_contained
      [of nullDetector "(newProcessor defaultConfig)
        \<lparr>state := \<lparr>isListening = True, isProcessing = True, lastActivityTime = 104000,
                   questionBuffer = []\<rparr>,
         lastChunkTime := 104000,
         inFlight := [],
         errorListeners := 1\<rparr>" 104500
         "(FromIngestion,
           \<lparr>chunk_data = [1 / 2, 1 / 2], chunk_timestamp = 104000, chunk_wordCount = 0\<rparr>)"
         "Error ''timeout''" 0]
    by (simp add: newProcessor_def)
qed


section \<open>The boundary policy\<close>

text \<open>
  The decision as the code takes it, on the counters of the object. For a batch
  submitted while listening, with \<open>q\<close> the object after the batch is accumulated and
  \<open>r\<close> the result of the call (run with nothing in between its two parts): a chunk is
  recorded if and only if the duration computed from \<open>accumulatedSamples\<close> is at least
  2000 ms, or at least 4000 ms passed since \<open>lastChunkTime\<close>, or the word count
  reached the configured maximum, or a question hint was asserted less than 3000 ms ago.
  The decision a suspended call carries is the same disjunction. The hint counts when it
  was asserted that recently before the call, or when the call itself asserts it because
  a recent transcript holds a question pattern. For a positive sample rate the duration
  test is \<open>accumulatedSamples / sampleRate * 1000 \<ge> 2000\<close> over the samples counted so
  far and those of the batch; the default maximum of words is 40.
\<close>

lemma boundary_decision_on_counters:
  assumes "isListening (state p)"
    and "q = accumulate p now audioData"
    and "r = processAudioChunk p now audioData"
  shows "(chunksRecorded (snd r) \<noteq> [] \<longleftrightarrow>
            shouldCreateByDuration q \<or> now - lastChunkTime q \<ge> 4000 \<or>
            wordCount q \<ge> maxWords (config q) \<or>
            now - lastQuestionHintTime (fst r) < 3000) \<and>
         (now - lastQuestionHintTime (fst r) < 3000 \<longleftrightarrow>
            now - lastQuestionHintTime p < 3000 \<or> hasQuestionPattern p) \<and>
         awaitingDecision (processAudioChunkBegin p now audioData) =
           awaitingDecision p @
           [shouldCreateByDuration q \<or> now - lastChunkTime q \<ge> 4000 \<or>
            wordCount q \<ge> maxWords (config q) \<or>
            now - lastQuestionHintTime (fst r) < 3000] \<and>
         (0 < sampleRate (config p) \<longrightarrow>
            (shouldCreateByDuration q \<longleftrightarrow>
               2000 * sampleRate (config p) \<le>
               1000 * (accumulatedSamples p + length audioData div 2))) \<and>
         lastChunkTime q = (if lastChunkTime p = 0 then now else lastChunkTime p) \<and>
         wordCount q = wordCount p \<and> maxWords (config q) = maxWords (config p) \<and>
         maxWords defaultConfig = 40"
proof -
  have cut: "chunksRecorded (snd r) \<noteq> [] \<longleftrightarrow>
            shouldCreateByDuration q \<or> now - lastChunkTime q \<ge> 4000 \<or>
            wordCount q \<ge> maxWords (config q) \<or>
            now - lastQuestionHintTime (fst r) < 3000"
    using assms
    by (auto simp: processAudioChunk_def processAudioChunkResume_def shouldCreateChunk_def
        hasRecentQuestionActivity_def shouldCreateByTime_def shouldCreateByWords_def chunks_createAndProcessChunk
        hint_createAndProcessChunk accumulate_fields split: prod.splits if_splits)
  have hint: "now - lastQuestionHintTime (fst r) < 3000 \<longleftrightarrow>
            now - lastQuestionHintTime p < 3000 \<or> hasQuestionPattern p"
    using assms
    by (auto simp: processAudioChunk_def processAudioChunkResume_def shouldCreateChunk_def
        hasRecentQuestionActivity_def
        hint_createAndProcessChunk accumulate_fields hasQuestionPattern_accumulate
        split: prod.splits if_splits)
  have dec: "awaitingDecision (processAudioChunkBegin p now audioData) =
           awaitingDecision p @
           [shouldCreateByDuration q \<or> now - lastChunkTime q \<ge> 4000 \<or>
            wordCount q \<ge> maxWords (config q) \<or>
            now - lastQuestionHintTime (fst r) < 3000]"
    using assms
    by (auto simp: processAudioChunk_def processAudioChunkBegin_def
        processAudioChunkResume_def shouldCreateChunk_def
        hasRecentQuestionActivity_def shouldCreateByTime_def shouldCreateByWords_def
        hint_createAndProcessChunk accumulate_def Let_def split: prod.splits if_splits)
  have dur: "0 < sampleRate (config p) \<longrightarrow>
            (shouldCreateByDuration q \<longleftrightarrow>
               2000 * sampleRate (config p) \<le>
               1000 * (accumulatedSamples p + length audioData div 2))"
    using assms(2) shouldCreateByDuration_iff [of q] by (simp add: accumulate_fields)
  show ?thesis
    using cut hint dec dur assms(2) by (simp add: accumulate_fields defaultConfig_def)
qed

text \<open>
  While the counter \<open>accumulatedSamples\<close> is the number of samples in the accumulator,
  the duration test is a test of the audio accumulated, and the batch is cut exactly
  under the four conditions on that audio.
\<close>

lemma boundary_policy_on_audio:
  assumes "isListening (state p)"
    and "counterInSync p"
    and "0 < sampleRate (config p)"
    and "q = accumulate p now audioData"
  shows "chunksRecorded (snd (processAudioChunk p now audioData)) \<noteq> [] \<longleftrightarrow>
           2000 * sampleRate (config p) \<le> 1000 * length (concat (currentAudioData q)) \<or>
           now - lastChunkTime q \<ge> 4000 \<or> wordCount q \<ge> maxWords (config q) \<or>
           now - lastQuestionHintTime p < 3000 \<or> hasQuestionPattern p"
proof -
  have "length (concat (currentAudioData q)) = accumulatedSamples p + length audioData div 2"
    using assms(2,4) by (simp add: counterInSync_def accumulate_fields length_readSamples)
  then show ?thesis
    using boundary_decision_on_counters [OF assms(1) assms(4) refl] assms(3) by simp
qed

text \<open>The counter and the accumulator agree from the construction of the object until a
  stop discards audio: every step keeps them in agreement but a \<open>stopListening\<close> that
  finds the object listening with audio accumulated.\<close>

lemma counterInSync_new: "counterInSync (newProcessor cfg)"
  by (simp add: counterInSync_def newProcessor_def)

lemma counterInSync_createAndProcessChunk:
  "counterInSync p \<Longrightarrow> counterInSync (fst (createAndProcessChunk caller p now))"
  by (simp add: counterInSync_def createAndProcessChunk_def transcribeChunk_def Let_def)

lemma counterInSync_processAudioChunkResume:
  "counterInSync p \<Longrightarrow> counterInSync (fst (processAudioChunkResume p now d))"
  by (simp add: processAudioChunkResume_def counterInSync_createAndProcessChunk)

lemma counterInSync_decision:
  "counterInSync p \<Longrightarrow> counterInSync (snd (shouldCreateChunk (accumulate p now bs) now))"
  by (simp add: counterInSync_def shouldCreateChunk_def hasRecentQuestionActivity_def
      accumulate_def Let_def length_readSamples)

lemma counterInSync_performStreaming:
  "counterInSync p \<Longrightarrow> counterInSync (fst (performStreamingQuestionDetection p now t))"
proof -
  assume "counterInSync p"
  then have "counterInSync (fst (createAndProcessChunk FromStreaming
      (p\<lparr>streamingBuffer := appendStreaming (streamingBuffer p) t, lastStreamingCheck := now\<rparr>)
      now))"
    by (intro counterInSync_createAndProcessChunk) (simp add: counterInSync_def)
  then show ?thesis
    using \<open>counterInSync p\<close>
    by (simp add: performStreamingQuestionDetection_def Let_def case_prod_beta
        counterInSync_def)
qed

lemma counterInSync_completeTranscription:
  assumes "counterInSync p"
  shows "counterInSync (fst (snd (completeTranscription det p now pending response)))"
proof (cases response)
  case (Inl e)
  then show ?thesis
    using assms by (simp add: completeTranscription_failure counterInSync_def)
next
  case (Inr t)
  have "counterInSync (updateRecentAudioBuffer p t)"
    using assms by (simp add: updateRecentAudioBuffer_def counterInSync_def Let_def)
  then have "counterInSync (fst (performStreamingQuestionDetection
      (updateRecentAudioBuffer p t) now t))"
    by (rule counterInSync_performStreaming)
  then show ?thesis
    using Inr
    by (cases "fst pending")
       (auto simp: completeTranscription_def transcribeChunkResume_def transcribeTry_def
        failSafeStop_def callerResume_def detectAndRefineQuestions_def Let_def
        counterInSync_def split: prod.splits)
qed

lemma counterInSync_step:
  assumes "counterInSync p"
    and "a = Stop \<longrightarrow> \<not> isListening (state p) \<or> currentAudioData p = []"
  shows "counterInSync (fst (step det p a))"
proof (cases a)
  case (Submit bs now)
  then show ?thesis
    using assms(1)
    by (simp add: step_def processAudioChunk_def case_prod_beta counterInSync_decision
        counterInSync_processAudioChunkResume)
next
  case (Ingest bs now)
  then show ?thesis
    using assms(1) counterInSync_decision [of p now bs]
    by (simp add: step_def processAudioChunkBegin_def case_prod_beta counterInSync_def)
next
  case (Decide i now)
  have "counterInSync (p\<lparr>awaitingDecision :=
      take i (awaitingDecision p) @ drop (Suc i) (awaitingDecision p)\<rparr>)"
    using assms(1) by (simp add: counterInSync_def)
  then show ?thesis
    using Decide assms(1) by (simp add: step_def counterInSync_processAudioChunkResume)
next
  case (Settle i response now)
  have "counterInSync (p\<lparr>inFlight := take i (inFlight p) @ drop (Suc i) (inFlight p)\<rparr>)"
    using assms(1) by (simp add: counterInSync_def)
  then show ?thesis
    using Settle assms(1) counterInSync_completeTranscription by (simp add: step_def)
next
  case Stop
  then show ?thesis
    using assms by (auto simp: step_def stopListening_def counterInSync_def Let_def)
qed (use assms(1) in \<open>auto simp: step_def startListening_def clearQuestions_def onError_def
      counterInSync_def Let_def\<close>)

lemma afterRestart_eq:
  "afterRestart =
     (newProcessor defaultConfig)
       \<lparr>state := \<lparr>isListening = True, isProcessing = False, lastActivityTime = 100001,
                  questionBuffer = []\<rparr>,
        accumulatedSamples := 31999, lastChunkTime := 100000\<rparr>"
  by (simp add: afterRestart_def restartedSession_def step_def nullDetector_def
      orchestrator_defs length_readSamples)

text \<open>
  Claim C3, evaluated on the code. The duration test reads the counter
  \<open>accumulatedSamples\<close>, which \<open>stopListening\<close> does not reset when it discards the
  audio. In the session \<open>restartedSession\<close>, with the default configuration, no chunk is
  cut, and after the restart the accumulator is empty while the counter still says
  31999. The next batch, one sample submitted 1 ms after the restart, is cut at once as
  a chunk of one sample: with it the counter says 32000 samples, two seconds at 16 kHz.
  None of the four conditions holds of that batch: the audio accumulated is one sample (a
  sixteenth of a millisecond), 2 ms passed since the time the object holds as its last
  boundary (the first batch of the session before), no word is counted against a maximum
  of 40, and no hint is asserted, before the call or by it.
\<close>

theorem stale_counter_cuts_one_sample:
  "chunksRecorded (snd (run nullDetector (newProcessor defaultConfig) restartedSession)) = [] \<and>
   isListening (state afterRestart) \<and>
   currentAudioData afterRestart = [] \<and>
   accumulatedSamples afterRestart = 31999 \<and>
   config afterRestart = defaultConfig \<and>
   currentAudioData (accumulate afterRestart 100002 [0, 64]) = [[1 / 2]] \<and>
   1000 * length (concat (currentAudioData (accumulate afterRestart 100002 [0, 64]))) <
     2000 * sampleRate defaultConfig \<and>
   accumulatedSamples (accumulate afterRestart 100002 [0, 64]) = 32000 \<and>
   shouldCreateByDuration (accumulate afterRestart 100002 [0, 64]) \<and>
   100002 - lastChunkTime (accumulate afterRestart 100002 [0, 64]) = 2 \<and>
   wordCount (accumulate afterRestart 100002 [0, 64]) = 0 \<and>
   maxWords defaultConfig = 40 \<and>
   100002 - lastQuestionHintTime afterRestart = 100002 \<and>
   hasQuestionPattern afterRestart = False \<and>
   lastQuestionHintTime (fst (processAudioChunk afterRestart 100002 [0, 64])) = 0 \<and>
   chunksRecorded (snd (processAudioChunk afterRestart 100002 [0, 64])) =
     [\<lparr>chunk_data = [1 / 2], chunk_timestamp = 100002, chunk_wordCount = 0\<rparr>] \<and>
   chunksRecorded (snd (step nullDetector afterRestart (Submit [0, 64] 100002))) =
     [\<lparr>chunk_data = [1 / 2], chunk_timestamp = 100002, chunk_wordCount = 0\<rparr>]"
proof -
  have "chunksRecorded (snd (run nullDetector (newProcessor defaultConfig) restartedSession)) = []"
    by (simp add: restartedSession_def step_def nullDetector_def orchestrator_defs
        length_readSamples)
  then show ?thesis
    unfolding afterRestart_eq by (simp add: step_def orchestrator_defs)
qed

section \<open>Refinement never erases a question\<close>




section \<open>Streaming detection\<close>









section \<open>Stopping\<close>

text \<open>
  Claim C8, evaluated on the code. \<open>stopListening\<close> while listening clears both flags,
  \<open>currentAudioData\<close> and \<open>wordCount\<close>, and emits one \<open>state-changed\<close> event and no
  chunk; while idle it changes nothing. It leaves \<open>accumulatedSamples\<close> and
  \<open>lastChunkTime\<close> as they were, where \<open>createAndProcessChunk\<close> resets them together
  with the audio: after a session that took in one sample and was stopped, the
  accumulator is empty and the counter still says 1.
\<close>

theorem stop_keeps_sample_counter:
  "accumulatedSamples (fst (stopListening p)) = accumulatedSamples p \<and>
   lastChunkTime (fst (stopListening p)) = lastChunkTime p \<and>
   currentAudioData (fst (processAudioChunk (fst (startListening (newProcessor defaultConfig)
       100000)) 100000 [0, 64])) = [[1 / 2]] \<and>
   stopListening (fst (processAudioChunk (fst (startListening (newProcessor defaultConfig)
       100000)) 100000 [0, 64])) =
     ((newProcessor defaultConfig)
        \<lparr>state := \<lparr>isListening = False, isProcessing = False, lastActivityTime = 100000,
                   questionBuffer = []\<rparr>,
         accumulatedSamples := 1, lastChunkTime := 100000\<rparr>,
      [StateChanged \<lparr>isListening = False, isProcessing = False, lastActivityTime = 100000,
                      questionBuffer = []\<rparr>])"
  by (simp add: orchestrator_defs)


section \<open>Conservation of samples\<close>

lemma chunksRecorded_append:
  "chunksRecorded (xs @ ys) = chunksRecorded xs @ chunksRecorded ys"
  by (induction xs rule: chunksRecorded.induct) simp_all

lemma chunksRecorded_questions: "chunksRecorded (map QuestionDetected qs) = []"
  by (induction qs) simp_all


lemma held_createAndProcessChunk:
  "held (createAndProcessChunk caller p now) = concat (currentAudioData p)"
  by (simp add: held_def createAndProcessChunk_def transcribeChunk_def Let_def)

lemma held_processAudioChunkResume:
  "held (processAudioChunkResume p now shouldCreate) = concat (currentAudioData p)"
  by (simp add: processAudioChunkResume_def held_createAndProcessChunk) (simp add: held_def)

lemma audio_shouldCreateChunk:
  "currentAudioData (snd (shouldCreateChunk p now)) = currentAudioData p"
  by (simp add: shouldCreateChunk_def hasRecentQuestionActivity_def)

lemma listening_shouldCreateChunk:
  "isListening (state (snd (shouldCreateChunk p now))) = isListening (state p)"
  by (simp add: shouldCreateChunk_def hasRecentQuestionActivity_def)

lemma held_processAudioChunk:
  "isListening (state p) \<Longrightarrow>
   held (processAudioChunk p now bs) = concat (currentAudioData p) @ readSamples bs"
  by (simp add: processAudioChunk_def case_prod_beta held_processAudioChunkResume
      audio_shouldCreateChunk accumulate_fields)

lemma audio_processAudioChunkBegin:
  "concat (currentAudioData (processAudioChunkBegin p now bs)) =
     concat (currentAudioData p) @ (if isListening (state p) then readSamples bs else [])"
  by (simp add: processAudioChunkBegin_def case_prod_beta audio_shouldCreateChunk
      accumulate_fields)

lemma held_performStreaming:
  "held (performStreamingQuestionDetection p now t) = concat (currentAudioData p)"
  using held_createAndProcessChunk [of FromStreaming "p\<lparr>streamingBuffer := appendStreaming (streamingBuffer p) t, lastStreamingCheck := now\<rparr>" now]
  by (auto simp: performStreamingQuestionDetection_def Let_def held_def case_prod_beta)

lemma audio_updateRecentAudioBuffer:
  "currentAudioData (updateRecentAudioBuffer p t) = currentAudioData p"
  by (simp add: updateRecentAudioBuffer_def Let_def)

lemma held_completeTranscription:
  "held (snd (completeTranscription det p now pending response)) = concat (currentAudioData p)"
proof (cases response)
  case (Inl e)
  then show ?thesis by (simp add: completeTranscription_failure held_def)
next
  case (Inr t)
  have "held (performStreamingQuestionDetection (updateRecentAudioBuffer p t) now t) = concat (currentAudioData p)"
    by (simp add: held_performStreaming audio_updateRecentAudioBuffer)
  then show ?thesis
    using Inr
    by (cases "fst pending")
       (auto simp: completeTranscription_def transcribeChunkResume_def transcribeTry_def
        failSafeStop_def callerResume_def detectAndRefineQuestions_def Let_def held_def
        chunksRecorded_append chunksRecorded_questions split: prod.splits)
qed

lemma step_conserves:
  "concat (map chunk_data (chunksRecorded (snd (step det p a)))) @ discardedBy p a @
     concat (currentAudioData (fst (step det p a))) =
   concat (currentAudioData p) @ takenBy p a"
proof (cases a)
  case (Start now)
  then show ?thesis
    by (simp add: step_def startListening_def discardedBy_def takenBy_def Let_def)
next
  case Stop
  then show ?thesis
    by (simp add: step_def stopListening_def discardedBy_def takenBy_def Let_def)
next
  case (Submit bs now)
  show ?thesis
  proof (cases "isListening (state p)")
    case True
    then show ?thesis
      using Submit held_processAudioChunk [of p now bs]
      by (simp add: step_def discardedBy_def takenBy_def held_def)
  next
    case False
    then show ?thesis
      using Submit by (simp add: step_def processAudioChunk_def discardedBy_def takenBy_def)
  qed
next
  case (Ingest bs now)
  then show ?thesis
    by (simp add: step_def discardedBy_def takenBy_def audio_processAudioChunkBegin)
next
  case (Decide i now)
  then show ?thesis
    using held_processAudioChunkResume
      [of "p\<lparr>awaitingDecision :=
              take i (awaitingDecision p) @ drop (Suc i) (awaitingDecision p)\<rparr>" now
          "awaitingDecision p ! i"]
    by (simp add: step_def discardedBy_def takenBy_def held_def)
next
  case (Settle i response now)
  then show ?thesis
    using held_completeTranscription
      [of det "p\<lparr>inFlight := take i (inFlight p) @ drop (Suc i) (inFlight p)\<rparr>" now
          "inFlight p ! i" response]
    by (simp add: step_def discardedBy_def takenBy_def held_def)
next
  case ClearQuestions
  then show ?thesis
    by (simp add: step_def clearQuestions_def discardedBy_def takenBy_def Let_def)
next
  case OnError
  then show ?thesis
    by (simp add: step_def onError_def discardedBy_def takenBy_def)
qed


text \<open>A call whose second part runs right after its first is the uninterrupted call.\<close>

lemma ingest_then_decide_is_submit:
  "isListening (state p) \<Longrightarrow>
   step det (fst (step det p (Ingest bs now))) (Decide (length (awaitingDecision p)) now) =
     step det p (Submit bs now)"
proof -
  assume "isListening (state p)"
  obtain b p' where sc: "shouldCreateChunk (accumulate p now bs) now = (b, p')"
    by (cases "shouldCreateChunk (accumulate p now bs) now")
  then have "awaitingDecision p = awaitingDecision p'"
    by (auto simp: shouldCreateChunk_def hasRecentQuestionActivity_def accumulate_def Let_def
        split: if_splits)
  then have "p'\<lparr>awaitingDecision := awaitingDecision p\<rparr> = p'"
    by simp
  then show ?thesis
    using sc \<open>isListening (state p)\<close> \<open>awaitingDecision p = awaitingDecision p'\<close>
    by (simp add: step_def processAudioChunk_def processAudioChunkBegin_def)
qed

lemma fst_run_Cons: "fst (run det p (a # as)) = fst (run det (fst (step det p a)) as)"
  by (simp add: case_prod_beta)

lemma snd_run_Cons:
  "snd (run det p (a # as)) = snd (step det p a) @ snd (run det (fst (step det p a)) as)"
  by (simp add: case_prod_beta)

lemma run_conserves:
  "concat (currentAudioData p) @ ingestedSamples det p as =
   drainedSamples det p as @ concat (currentAudioData (fst (run det p as)))"
proof (induction as arbitrary: p)
  case Nil
  then show ?case by simp
next
  case (Cons a as)
  let ?p1 = "fst (step det p a)"
  let ?out = "concat (map chunk_data (chunksRecorded (snd (step det p a)))) @ discardedBy p a"
  have sc: "concat (currentAudioData p) @ takenBy p a = ?out @ concat (currentAudioData ?p1)"
    using step_conserves [of det p a] by simp
  have "concat (currentAudioData p) @ ingestedSamples det p (a # as) =
        (concat (currentAudioData p) @ takenBy p a) @ ingestedSamples det ?p1 as"
    by simp
  also have "\<dots> = (?out @ concat (currentAudioData ?p1)) @ ingestedSamples det ?p1 as"
    by (simp only: sc)
  also have "\<dots> = ?out @ (concat (currentAudioData ?p1) @ ingestedSamples det ?p1 as)"
    by simp
  also have "\<dots> = ?out @ (drainedSamples det ?p1 as @ concat (currentAudioData (fst (run det ?p1 as))))"
    by (simp only: Cons.IH)
  also have "\<dots> = drainedSamples det p (a # as) @ concat (currentAudioData (fst (run det p (a # as))))"
    by (simp add: fst_run_Cons del: run.simps)
  finally show ?case .
qed

lemma drained_count:
  "length (drainedSamples det p as) =
     sum_list (map (\<lambda>c. length (chunk_data c)) (chunksRecorded (snd (run det p as)))) +
     length (discardedSamples det p as)"
proof (induction as arbitrary: p)
  case Nil
  then show ?case by simp
next
  case (Cons a as)
  have "length (concat (map chunk_data cs)) = sum_list (map (\<lambda>c. length (chunk_data c)) cs)" for cs :: "AudioChunk list"
    by (induction cs) simp_all
  then show ?case
    using Cons.IH [of "fst (step det p a)"]
    by (simp add: snd_run_Cons chunksRecorded_append del: run.simps)
qed

lemma listening_createAndProcessChunk:
  "isListening (state (fst (createAndProcessChunk caller p now))) = isListening (state p)"
  by (simp add: createAndProcessChunk_def transcribeChunk_def Let_def)

lemma idleEmpty_createAndProcessChunk:
  "idleEmpty p \<Longrightarrow> idleEmpty (fst (createAndProcessChunk caller p now))"
  by (simp add: idleEmpty_def createAndProcessChunk_def transcribeChunk_def Let_def)

lemma idleEmpty_performStreaming:
  "idleEmpty p \<Longrightarrow> idleEmpty (fst (performStreamingQuestionDetection p now t))"
  using idleEmpty_createAndProcessChunk [of "p\<lparr>streamingBuffer := appendStreaming (streamingBuffer p) t, lastStreamingCheck := now\<rparr>" FromStreaming now]
  by (auto simp: performStreamingQuestionDetection_def Let_def case_prod_beta idleEmpty_def)

lemma idleEmpty_completeTranscription:
  assumes "idleEmpty p"
  shows "idleEmpty (fst (snd (completeTranscription det p now pending response)))"
proof (cases response)
  case (Inl e)
  then show ?thesis using assms by (simp add: completeTranscription_failure idleEmpty_def)
next
  case (Inr t)
  have "idleEmpty (updateRecentAudioBuffer p t)"
    using assms by (simp add: idleEmpty_def updateRecentAudioBuffer_def Let_def)
  then have "idleEmpty (fst (performStreamingQuestionDetection (updateRecentAudioBuffer p t) now t))"
    by (rule idleEmpty_performStreaming)
  then show ?thesis
    using Inr
    by (cases "fst pending")
       (auto simp: completeTranscription_def transcribeChunkResume_def transcribeTry_def
        failSafeStop_def callerResume_def detectAndRefineQuestions_def Let_def idleEmpty_def
        split: prod.splits)
qed

lemma idleEmpty_processAudioChunkResume:
  "idleEmpty p \<Longrightarrow> idleEmpty (fst (processAudioChunkResume p now shouldCreate))"
  by (simp add: processAudioChunkResume_def idleEmpty_createAndProcessChunk)

lemma idleEmpty_listening: "isListening (state p) \<Longrightarrow> idleEmpty p"
  by (simp add: idleEmpty_def)

lemma idleEmpty_step: "idleEmpty p \<Longrightarrow> idleEmpty (fst (step det p a))"
proof (cases a)
  case (Submit bs now)
  assume "idleEmpty p"
  show ?thesis
  proof (cases "isListening (state p)")
    case True
    then have "idleEmpty (snd (shouldCreateChunk (accumulate p now bs) now))"
      by (intro idleEmpty_listening)
         (simp add: listening_shouldCreateChunk accumulate_def Let_def)
    then show ?thesis
      using Submit True
      by (simp add: step_def processAudioChunk_def case_prod_beta
          idleEmpty_processAudioChunkResume)
  next
    case False
    then show ?thesis
      using Submit \<open>idleEmpty p\<close> by (simp add: step_def processAudioChunk_def)
  qed
next
  case (Ingest bs now)
  assume "idleEmpty p"
  show ?thesis
  proof (cases "isListening (state p)")
    case True
    then have "isListening (state (processAudioChunkBegin p now bs))"
      by (simp add: processAudioChunkBegin_def case_prod_beta listening_shouldCreateChunk
          accumulate_def Let_def)
    then show ?thesis
      using Ingest by (simp add: step_def idleEmpty_listening)
  next
    case False
    then show ?thesis
      using Ingest \<open>idleEmpty p\<close> by (simp add: step_def processAudioChunkBegin_def)
  qed
next
  case (Decide i now)
  assume "idleEmpty p"
  then have "idleEmpty (p\<lparr>awaitingDecision :=
      take i (awaitingDecision p) @ drop (Suc i) (awaitingDecision p)\<rparr>)"
    by (simp add: idleEmpty_def)
  then show ?thesis
    using Decide \<open>idleEmpty p\<close> by (simp add: step_def idleEmpty_processAudioChunkResume)
next
  case (Settle i response now)
  assume "idleEmpty p"
  then have "idleEmpty (p\<lparr>inFlight := take i (inFlight p) @ drop (Suc i) (inFlight p)\<rparr>)"
    by (simp add: idleEmpty_def)
  then show ?thesis
    using Settle idleEmpty_completeTranscription \<open>idleEmpty p\<close>
    by (simp add: step_def)
qed (auto simp: step_def startListening_def stopListening_def clearQuestions_def onError_def
      idleEmpty_def Let_def)

lemma idleEmpty_run: "idleEmpty p \<Longrightarrow> idleEmpty (fst (run det p as))"
  by (induction as arbitrary: p) (simp_all add: case_prod_beta idleEmpty_step)


text \<open>
  Claim C1. In every session that starts from a new object, whatever the calls of the
  control surface and the completions of transcriptions and however they interleave
  (also when a streaming cut runs between the boundary decision of a call and its cut), the
  number of samples taken in while listening is the number of samples in the recorded
  chunks, plus the number discarded by \<open>stopListening\<close>, plus the number still
  accumulated. An idle object holds no audio, so once the session is stopped the samples
  taken in are exactly those of the chunks and those discarded. Sample by sample: the
  sequence taken in is the sequence of the chunks' data and the discarded audio in the
  order they left the accumulator, followed by what is still accumulated; no sample is
  lost, repeated or moved.
\<close>

theorem samples_are_conserved:
  "length (ingestedSamples det (newProcessor cfg) as) =
     sum_list (map (\<lambda>c. length (chunk_data c))
       (chunksRecorded (snd (run det (newProcessor cfg) as)))) +
     length (discardedSamples det (newProcessor cfg) as) +
     length (concat (currentAudioData (fst (run det (newProcessor cfg) as)))) \<and>
   (\<not> isListening (state (fst (run det (newProcessor cfg) as))) \<longrightarrow>
      currentAudioData (fst (run det (newProcessor cfg) as)) = [] \<and>
      length (ingestedSamples det (newProcessor cfg) as) =
        sum_list (map (\<lambda>c. length (chunk_data c))
          (chunksRecorded (snd (run det (newProcessor cfg) as)))) +
        length (discardedSamples det (newProcessor cfg) as)) \<and>
   ingestedSamples det (newProcessor cfg) as =
     drainedSamples det (newProcessor cfg) as @
     concat (currentAudioData (fst (run det (newProcessor cfg) as)))"
proof -
  let ?p0 = "newProcessor cfg"
  have seq: "ingestedSamples det ?p0 as =
     drainedSamples det ?p0 as @ concat (currentAudioData (fst (run det ?p0 as)))"
    using run_conserves [of ?p0 det as] by (simp add: newProcessor_def)
  have count: "length (ingestedSamples det ?p0 as) =
     sum_list (map (\<lambda>c. length (chunk_data c)) (chunksRecorded (snd (run det ?p0 as)))) +
     length (discardedSamples det ?p0 as) +
     length (concat (currentAudioData (fst (run det ?p0 as))))"
    by (simp only: seq length_append drained_count)
  have "idleEmpty ?p0"
    by (simp add: idleEmpty_def newProcessor_def)
  then have "idleEmpty (fst (run det ?p0 as))"
    by (rule idleEmpty_run)
  then have idle: "\<not> isListening (state (fst (run det ?p0 as))) \<longrightarrow>
      currentAudioData (fst (run det ?p0 as)) = []"
    unfolding idleEmpty_def by blast
  show ?thesis
    using seq count idle by auto
qed


lemmas session_defs =
  step_def clearQuestions_def completeTranscription_def transcribeChunkResume_def
  transcribeTry_def failSafeStop_def callerResume_def detectAndRefineQuestions_def
  allQuestions_def baseText_def refinePart_def map_filter_def updateRecentAudioBuffer_def
  performStreamingQuestionDetection_def appendStreaming_def hasStreamingQuestion_def
  streamingQuestionPatterns_def isKaOrQuestionMark_def isQuestionMarkOrStop_def
  discardedBy_def takenBy_def nullDetector_def exampleSession_def

lemma exampleSession_chunks:
  "map chunk_data (chunksRecorded (snd (run nullDetector (newProcessor defaultConfig) exampleSession))) =
     [[1 / 2, 1 / 2], [1 / 2], [1 / 2]] \<and>
   isListening (state (fst (run nullDetector (newProcessor defaultConfig) exampleSession))) = False"
  by (simp add: session_defs orchestrator_defs text_defs)

lemma exampleSession_ingested:
  "ingestedSamples nullDetector (newProcessor defaultConfig) exampleSession = [1 / 2, 1 / 2, 1 / 2, 1 / 2, 1 / 2]"
  by (simp add: session_defs orchestrator_defs text_defs)

lemma exampleSession_discarded:
  "discardedSamples nullDetector (newProcessor defaultConfig) exampleSession = [1 / 2]"
  by (simp add: session_defs orchestrator_defs text_defs)

theorem samples_are_conserved_witness:
  "length (ingestedSamples nullDetector (newProcessor defaultConfig) exampleSession) = 5 \<and>
   map chunk_data (chunksRecorded (snd (run nullDetector (newProcessor defaultConfig) exampleSession))) =
     [[1 / 2, 1 / 2], [1 / 2], [1 / 2]] \<and>
   discardedSamples nullDetector (newProcessor defaultConfig) exampleSession = [1 / 2] \<and>
   \<not> isListening (state (fst (run nullDetector (newProcessor defaultConfig) exampleSession))) \<and>
   currentAudioData (fst (run nullDetector (newProcessor defaultConfig) exampleSession)) = []"
proof -
  have idle: "\<not> isListening (state (fst (run nullDetector (newProcessor defaultConfig) exampleSession)))"
    by (simp add: exampleSession_chunks)
  have empty: "currentAudioData (fst (run nullDetector (newProcessor defaultConfig) exampleSession)) = []"
    using samples_are_conserved [of nullDetector defaultConfig exampleSession] idle by blast
  show ?thesis
    using idle empty
    by (simp add: exampleSession_chunks exampleSession_ingested exampleSession_discarded)
qed


section \<open>Order of the candidates\<close>

lemma startsWith_iff: "startsWith s w \<longleftrightarrow> (\<exists>t. s = w @ t)"
  by (induction s w rule: startsWith.induct) auto

lemma inOrder_Cons_iff:
  "inOrder (p # ps) t \<longleftrightarrow> (\<exists>pre post. t = pre @ p @ post \<and> inOrder ps post)"
proof (induction t)
  case Nil
  then show ?case by auto
next
  case (Cons c t)
  show ?case
  proof
    assume "inOrder (p # ps) (c # t)"
    then consider "startsWith (c # t) p" "inOrder ps (drop (length p) (c # t))"
      | "inOrder (p # ps) t"
      by auto
    then show "\<exists>pre post. c # t = pre @ p @ post \<and> inOrder ps post"
    proof cases
      case 1
      then obtain post where "c # t = p @ post"
        by (auto simp: startsWith_iff)
      with 1 have "c # t = [] @ p @ post \<and> inOrder ps post"
        by (metis append_Nil append_eq_conv_conj)
      then show ?thesis by blast
    next
      case 2
      then obtain pre post where "t = pre @ p @ post" "inOrder ps post"
        using Cons.IH by blast
      then have "c # t = (c # pre) @ p @ post \<and> inOrder ps post"
        by simp
      then show ?thesis by blast
    qed
  next
    assume "\<exists>pre post. c # t = pre @ p @ post \<and> inOrder ps post"
    then obtain pre post where eq: "c # t = pre @ p @ post" and ord: "inOrder ps post"
      by blast
    show "inOrder (p # ps) (c # t)"
    proof (cases pre)
      case Nil
      with eq have "startsWith (c # t) p" "drop (length p) (c # t) = post"
        by (auto simp: startsWith_iff)
      with ord show ?thesis by simp
    next
      case (Cons d pre')
      with eq have "t = pre' @ p @ post" by simp
      with ord have "inOrder (p # ps) t" using Cons.IH by blast
      then show ?thesis by simp
    qed
  qed
qed

lemma inOrder_weaken: "inOrder ps t \<Longrightarrow> inOrder ps (a @ t @ b)"
proof (induction ps arbitrary: t a)
  case Nil
  then show ?case by simp
next
  case (Cons p ps)
  then obtain pre post where t: "t = pre @ p @ post" and ord: "inOrder ps post"
    by (auto simp: inOrder_Cons_iff)
  from ord have "inOrder ps ([] @ post @ b)" by (rule Cons.IH)
  then have "a @ t @ b = (a @ pre) @ p @ (post @ b) \<and> inOrder ps (post @ b)"
    using t by simp
  then show ?case unfolding inOrder_Cons_iff by blast
qed

lemma inOrder_append: "inOrder ps t1 \<Longrightarrow> inOrder qs t2 \<Longrightarrow> inOrder (ps @ qs) (t1 @ t2)"
proof (induction ps arbitrary: t1)
  case Nil
  then show ?case using inOrder_weaken [of qs t2 t1 "[]"] by simp
next
  case (Cons p ps)
  then obtain pre post where t: "t1 = pre @ p @ post" and ord: "inOrder ps post"
    by (auto simp: inOrder_Cons_iff)
  from ord Cons.prems(2) have "inOrder (ps @ qs) (post @ t2)" by (rule Cons.IH)
  then have "t1 @ t2 = pre @ p @ (post @ t2) \<and> inOrder (ps @ qs) (post @ t2)"
    using t by simp
  then show ?case unfolding append_Cons inOrder_Cons_iff by blast
qed

lemma inOrder_flatMap:
  assumes "\<And>p. inOrder (f p) p"
  shows "inOrder ps t \<Longrightarrow> inOrder (concat (map f ps)) t"
proof (induction ps arbitrary: t)
  case Nil
  then show ?case by simp
next
  case (Cons p ps)
  then obtain pre post where t: "t = pre @ p @ post" and ord: "inOrder ps post"
    by (auto simp: inOrder_Cons_iff)
  from ord have "inOrder (concat (map f ps)) post" by (rule Cons.IH)
  with assms have "inOrder (f p @ concat (map f ps)) (p @ post)" by (rule inOrder_append)
  then have "inOrder (f p @ concat (map f ps)) (pre @ (p @ post) @ [])" by (rule inOrder_weaken)
  then show ?case using t by simp
qed

lemma inOrder_single: "inOrder [p] t \<longleftrightarrow> (\<exists>pre post. t = pre @ p @ post)"
  by (simp add: inOrder_Cons_iff)

lemma inOrder_filter: "inOrder ps t \<Longrightarrow> inOrder (filter Q ps) t"
proof -
  assume "inOrder ps t"
  moreover have "inOrder (if Q p then [p] else []) p" for p :: "'a list"
    using inOrder_single [of p p] by (metis append_Nil append_Nil2 inOrder.simps(1))
  ultimately have "inOrder (concat (map (\<lambda>p. if Q p then [p] else []) ps)) t"
    using inOrder_flatMap [of "\<lambda>p. if Q p then [p] else []" ps t] by blast
  moreover have "concat (map (\<lambda>p. if Q p then [p] else []) ps) = filter Q ps"
    by (induction ps) simp_all
  ultimately show ?thesis by simp
qed

lemma inOrder_map:
  assumes "\<And>p. inOrder [g p] p"
  shows "inOrder ps t \<Longrightarrow> inOrder (map g ps) t"
proof -
  assume "inOrder ps t"
  then have "inOrder (concat (map (\<lambda>p. [g p]) ps)) t"
    using assms inOrder_flatMap [of "\<lambda>p. [g p]" ps t] by blast
  moreover have "concat (map (\<lambda>p. [g p]) ps) = map g ps"
    by (induction ps) simp_all
  ultimately show ?thesis by simp
qed

lemma inOrder_self: "inOrder [p] p"
  using inOrder_single [of p p] by (metis append_Nil append_Nil2)

lemma inOrder_trim: "inOrder [trim s] s"
proof -
  let ?u = "dropWhile isWhiteSpace s"
  have "s = takeWhile isWhiteSpace s @ ?u" by simp
  moreover have "?u = trim s @ rev (takeWhile isWhiteSpace (rev ?u))"
    unfolding trim_def by (metis rev_append rev_rev_ident takeWhile_dropWhile_id)
  ultimately have "s = takeWhile isWhiteSpace s @ trim s @ rev (takeWhile isWhiteSpace (rev ?u))"
    by metis
  then show ?thesis unfolding inOrder_single by blast
qed

lemma splitRegex_pieces:
  "\<exists>p ps pre post. splitRegex R S b s = p # ps \<and> s = pre @ p @ post \<and> inOrder ps post \<and>
      (\<not> b \<longrightarrow> pre = [])"
proof (induction R S b s rule: splitRegex.induct)
  case (1 R S inRun)
  then show ?case by simp
next
  case (2 R S inRun c t)
  show ?case
  proof (cases "R c")
    case True
    from 2(1,2) True obtain p ps pre post where
      rec: "splitRegex R S True t = p # ps" "t = pre @ p @ post" "inOrder ps post"
      by (cases inRun) auto
    show ?thesis
    proof (cases inRun)
      case True
      with \<open>R c\<close> rec have "splitRegex R S inRun (c # t) = p # ps \<and>
          c # t = (c # pre) @ p @ post \<and> inOrder ps post \<and> (\<not> inRun \<longrightarrow> c # pre = [])"
        by simp
      then show ?thesis by blast
    next
      case False
      from rec have "inOrder (p # ps) t"
        unfolding inOrder_Cons_iff by blast
      then have "inOrder (p # ps) ([c] @ t @ [])" by (rule inOrder_weaken)
      with False \<open>R c\<close> rec have "splitRegex R S inRun (c # t) = [] # p # ps \<and>
          c # t = [] @ [] @ (c # t) \<and> inOrder (p # ps) (c # t)"
        by simp
      then show ?thesis by blast
    qed
  next
    case notR: False
    show ?thesis
    proof (cases "S c")
      case True
      from 2(3) notR True obtain p ps post where
        rec: "splitRegex R S False t = p # ps" "t = p @ post" "inOrder ps post"
        by auto
      then have "inOrder (p # ps) t"
        unfolding inOrder_Cons_iff by (metis append_Nil)
      then have "inOrder (p # ps) ([c] @ t @ [])" by (rule inOrder_weaken)
      with True notR rec have "splitRegex R S inRun (c # t) = [] # p # ps \<and>
          c # t = [] @ [] @ (c # t) \<and> inOrder (p # ps) (c # t)"
        by simp
      then show ?thesis by blast
    next
      case False
      from 2(4) notR False obtain p ps post where
        rec: "splitRegex R S False t = p # ps" "t = p @ post" "inOrder ps post"
        by auto
      with False notR have "splitRegex R S inRun (c # t) = (c # p) # ps \<and>
          c # t = [] @ (c # p) @ post \<and> inOrder ps post"
        by simp
      then show ?thesis by blast
    qed
  qed
qed

lemma inOrder_splitRegex: "inOrder (splitRegex R S b s) s"
  using splitRegex_pieces [of R S b s] unfolding inOrder_Cons_iff [symmetric]
  by (metis inOrder_Cons_iff)

lemma splitStr_pieces:
  "\<exists>p ps post. splitStr sep acc s = p # ps \<and> rev acc @ s = p @ post \<and> inOrder ps post"
proof (induction sep acc s rule: splitStr.induct)
  case (1 sep acc)
  then show ?case by simp
next
  case (2 sep acc c t)
  show ?case
  proof (cases "sep \<noteq> [] \<and> startsWith (c # t) sep")
    case True
    with 2(1) obtain p ps post where
      rec: "splitStr sep [] (drop (length sep) (c # t)) = p # ps"
           "drop (length sep) (c # t) = p @ post" "inOrder ps post"
      by auto
    then have "inOrder (p # ps) (drop (length sep) (c # t))"
      unfolding inOrder_Cons_iff by (metis append_Nil)
    then have "inOrder (p # ps) (take (length sep) (c # t) @ drop (length sep) (c # t) @ [])"
      by (rule inOrder_weaken)
    then have "inOrder (p # ps) (c # t)"
      by (simp only: append_Nil2 append_take_drop_id)
    with True rec have "splitStr sep acc (c # t) = rev acc # p # ps \<and>
        rev acc @ c # t = rev acc @ (c # t) \<and> inOrder (p # ps) (c # t)"
      by simp
    then show ?thesis by blast
  next
    case False
    with 2(2) obtain p ps post where
      "splitStr sep (c # acc) t = p # ps" "rev (c # acc) @ t = p @ post" "inOrder ps post"
      by blast
    with False have "splitStr sep acc (c # t) = p # ps \<and> rev acc @ c # t = p @ post \<and> inOrder ps post"
      by auto
    then show ?thesis by blast
  qed
qed

lemma inOrder_splitStr: "inOrder (splitStr sep [] s) s"
  using splitStr_pieces [of sep "[]" s] by (metis append_Nil inOrder_Cons_iff rev.simps(1))

lemma replaceTail_prefix: "\<exists>b. s = replaceTail m s @ b"
  by (induction s) auto

lemma inOrder_replaceTail: "inOrder [replaceTail m s] s"
  unfolding inOrder_single using replaceTail_prefix [of s m] by (metis append_Nil)

lemma inOrder_trans: "inOrder [a] b \<Longrightarrow> inOrder [b] c \<Longrightarrow> inOrder [a] c"
  unfolding inOrder_single by (metis append.assoc)

lemma inOrder_stripTrailingCommas: "inOrder [stripTrailingCommas p] p"
  unfolding stripTrailingCommas_def
  using inOrder_trim inOrder_replaceTail by (rule inOrder_trans)

lemma inOrder_trimmed_pieces:
  "inOrder ps s \<Longrightarrow> inOrder (filter Q (map trim ps)) s"
  by (rule inOrder_filter [OF inOrder_map [OF inOrder_trim]])

lemma inOrder_sentenceParts: "inOrder (sentenceParts text) text"
  unfolding sentenceParts_def by (rule inOrder_trimmed_pieces [OF inOrder_splitRegex])

lemma inOrder_splitByQuestionMarks: "inOrder (splitByQuestionMarks part) part"
  unfolding splitByQuestionMarks_def splitOnChars_def Let_def
  by (simp add: inOrder_self inOrder_trimmed_pieces inOrder_splitRegex)

lemma inOrder_splitByConnector:
  "inOrder subParts p \<Longrightarrow> inOrder (splitByConnector subParts c) p"
  unfolding splitByConnector_def
  by (rule inOrder_flatMap [OF inOrder_trimmed_pieces [OF inOrder_splitStr]])

lemma inOrder_foldl_connectors:
  "inOrder subParts p \<Longrightarrow> inOrder (foldl splitByConnector subParts cs) p"
  by (induction cs arbitrary: subParts) (simp_all add: inOrder_splitByConnector)

lemma inOrder_splitByConnectors: "inOrder (splitByConnectors p) p"
  unfolding splitByConnectors_def by (rule inOrder_foldl_connectors [OF inOrder_self])

lemma inOrder_splitIntoQuestions: "inOrder (splitIntoQuestions text) text"
proof (cases "text = []")
  case True
  then show ?thesis by (simp add: splitIntoQuestions_def)
next
  case False
  have "inOrder (concat (map splitByQuestionMarks (sentenceParts text))) text"
    by (rule inOrder_flatMap [OF inOrder_splitByQuestionMarks inOrder_sentenceParts])
  then have "inOrder (concat (map splitByConnectors
      (concat (map splitByQuestionMarks (sentenceParts text))))) text"
    by (rule inOrder_flatMap [OF inOrder_splitByConnectors])
  then have "inOrder (map stripTrailingCommas (concat (map splitByConnectors
      (concat (map splitByQuestionMarks (sentenceParts text)))))) text"
    by (rule inOrder_map [OF inOrder_stripTrailingCommas])
  then show ?thesis
    using False by (simp add: splitIntoQuestions_def inOrder_filter)
qed

lemma inOrder_matchLeadingPreface:
  "matchLeadingPreface s = Some rest \<Longrightarrow> inOrder [rest] s"
proof -
  assume "matchLeadingPreface s = Some rest"
  then obtain w :: jsstring where "rest = dropWhile isWhiteSpace (drop (length w) s)"
    by (auto simp: matchLeadingPreface_def split: option.splits)
  moreover have "s = (take (length w) s @ takeWhile isWhiteSpace (drop (length w) s)) @
      dropWhile isWhiteSpace (drop (length w) s) @ []"
    by simp
  ultimately show ?thesis unfolding inOrder_single by blast
qed

lemma inOrder_stripLeadingPreface: "inOrder [stripLeadingPreface n s] s"
proof (induction n arbitrary: s)
  case 0
  then show ?case by (simp add: inOrder_self)
next
  case (Suc n)
  show ?case
  proof (cases "matchLeadingPreface s")
    case None
    then show ?thesis by (simp add: inOrder_self)
  next
    case (Some rest)
    have "inOrder [stripLeadingPreface n (trim rest)] (trim rest)" by (rule Suc.IH)
    then have "inOrder [stripLeadingPreface n (trim rest)] rest"
      using inOrder_trim by (rule inOrder_trans)
    then have "inOrder [stripLeadingPreface n (trim rest)] s"
      using inOrder_matchLeadingPreface [OF Some] by (rule inOrder_trans)
    with Some show ?thesis by simp
  qed
qed

lemma inOrder_trimPreface: "inOrder [trimPreface text] text"
proof -
  have "inOrder [stripLeadingPreface 3 (trim text)] text"
    using inOrder_stripLeadingPreface inOrder_trim by (rule inOrder_trans)
  moreover have "inOrder [trim text] text" by (rule inOrder_trim)
  moreover have "trimPreface text = trim text \<or>
      trimPreface text = stripLeadingPreface 3 (trim text)"
    by (simp add: trimPreface_def Let_def)
  ultimately show ?thesis by metis
qed

lemma q_text_refinePart:
  "refinePart det tr dq part = Some q \<Longrightarrow> q_text q = trim (trimPreface part)"
  by (auto simp: refinePart_def Let_def split: if_splits)

lemma texts_allQuestions:
  "map q_text (List.map_filter (refinePart det tr dq) parts) =
   map (\<lambda>part. trim (trimPreface part)) (filter (\<lambda>part. refinePart det tr dq part \<noteq> None) parts)"
  by (induction parts) (auto simp: map_filter_def q_text_refinePart)

lemma inOrder_allQuestions:
  "inOrder (map q_text (allQuestions det tr)) (baseText det tr)"
proof -
  have "inOrder [trim (trimPreface part)] part" for part
    using inOrder_trim inOrder_trimPreface by (rule inOrder_trans)
  then have "inOrder (map (\<lambda>part. trim (trimPreface part))
      (filter (\<lambda>part. refinePart det tr (detectQuestion det tr) part \<noteq> None)
        (splitIntoQuestions (baseText det tr)))) (baseText det tr)"
    by (rule inOrder_map [OF _ inOrder_filter [OF inOrder_splitIntoQuestions]])
  then show ?thesis
    by (simp add: allQuestions_def texts_allQuestions)
qed

lemma refinePart_accept:
  assumes "trimPreface part = core" and "trim core = core" and "2 \<le> length core"
    and "looksLikeQuestion core"
  shows "refinePart det tr dq part =
     Some \<lparr>q_text = core,
           q_timestamp = (case dq of Some d \<Rightarrow> q_timestamp d | None \<Rightarrow> tr_timestamp tr),
           q_confidence = (case dq of Some d \<Rightarrow> q_confidence d | None \<Rightarrow> tr_confidence tr),
           refinedText = Some (refineQuestionAlgorithmically core)\<rparr>"
  using assms by (auto simp: refinePart_def Let_def)

lemma two_split: "splitIntoQuestions twoQuestionsTranscript =
    [[k_nani, k_ji, h_ni, k_haji, h_ma, h_ri, h_ma, h_su, h_ka],
     [k_dare, h_ga, k_san, k_ka, h_si, h_ma, h_su, h_ka]]"
  by (simp add: twoQuestionsTranscript_def text_defs)

lemma two_first:
  "trimPreface [k_nani, k_ji, h_ni, k_haji, h_ma, h_ri, h_ma, h_su, h_ka] =
     [k_nani, k_ji, h_ni, k_haji, h_ma, h_ri, h_ma, h_su, h_ka]"
  "trim [k_nani, k_ji, h_ni, k_haji, h_ma, h_ri, h_ma, h_su, h_ka] =
     [k_nani, k_ji, h_ni, k_haji, h_ma, h_ri, h_ma, h_su, h_ka]"
  "looksLikeQuestion [k_nani, k_ji, h_ni, k_haji, h_ma, h_ri, h_ma, h_su, h_ka]"
  "refineQuestionAlgorithmically [k_nani, k_ji, h_ni, k_haji, h_ma, h_ri, h_ma, h_su, h_ka] =
     [k_nani, k_ji, h_ni, k_haji, h_ma, h_ri, h_ma, h_su, h_ka, c_qm]"
  by (simp_all add: text_defs)

lemma two_second:
  "trimPreface [k_dare, h_ga, k_san, k_ka, h_si, h_ma, h_su, h_ka] =
     [k_dare, h_ga, k_san, k_ka, h_si, h_ma, h_su, h_ka]"
  "trim [k_dare, h_ga, k_san, k_ka, h_si, h_ma, h_su, h_ka] =
     [k_dare, h_ga, k_san, k_ka, h_si, h_ma, h_su, h_ka]"
  "looksLikeQuestion [k_dare, h_ga, k_san, k_ka, h_si, h_ma, h_su, h_ka]"
  "refineQuestionAlgorithmically [k_dare, h_ga, k_san, k_ka, h_si, h_ma, h_su, h_ka] =
     [k_dare, h_ga, k_san, k_ka, h_si, h_ma, h_su, h_ka, c_qm]"
  by (simp_all add: text_defs)

lemma two_questions:
  assumes "tr_text tr = twoQuestionsTranscript" and "baseText det tr = twoQuestionsTranscript"
  shows "map q_text (allQuestions det tr) =
           [[k_nani, k_ji, h_ni, k_haji, h_ma, h_ri, h_ma, h_su, h_ka],
            [k_dare, h_ga, k_san, k_ka, h_si, h_ma, h_su, h_ka]] \<and>
         map refinedText (allQuestions det tr) =
           [Some [k_nani, k_ji, h_ni, k_haji, h_ma, h_ri, h_ma, h_su, h_ka, c_qm],
            Some [k_dare, h_ga, k_san, k_ka, h_si, h_ma, h_su, h_ka, c_qm]]"
proof -
  have long: "\<not> (tr_text tr = [] \<or> length (trim (tr_text tr)) < 3)"
    using assms(1) by (simp add: twoQuestionsTranscript_def text_defs)
  have "allQuestions det tr =
      List.map_filter (refinePart det tr (detectQuestion det tr))
        [[k_nani, k_ji, h_ni, k_haji, h_ma, h_ri, h_ma, h_su, h_ka],
         [k_dare, h_ga, k_san, k_ka, h_si, h_ma, h_su, h_ka]]"
    using long assms(2) by (simp add: allQuestions_def two_split)
  then show ?thesis
    by (simp add: map_filter_def
        refinePart_accept [OF two_first(1) two_first(2) _ two_first(3)]
        refinePart_accept [OF two_second(1) two_second(2) _ two_second(3)]
        two_first(4) two_second(4))
qed

lemma inOrder_span: "inOrder ps b \<Longrightarrow> inOrder [b] c \<Longrightarrow> inOrder ps c"
  unfolding inOrder_single using inOrder_weaken by blast

text \<open>
  Claim C7. The questions emitted for a transcript carry the candidate texts in the order
  in which the candidates stand in the text that was split, from left to right and
  without overlap; nothing reorders them. The text that was split is the transcript when
  the detector returns no question, and the detector's text otherwise; when that text is
  a span of the transcript, the order is the order within the transcript. For the
  transcript with two questions joined by a connector (when the text that is split is the
  transcript) exactly two questions are emitted, the first before the second, each
  refined to its text with a question mark.
\<close>

theorem questions_are_emitted_in_order:
  "inOrder (map q_text (questionsDetected (snd (detectAndRefineQuestions det p transcription))))
     (baseText det transcription) \<and>
   ((case detectQuestion det transcription of
       None \<Rightarrow> True
     | Some d \<Rightarrow> inOrder [q_text d] (tr_text transcription)) \<longrightarrow>
      inOrder (map q_text (questionsDetected (snd (detectAndRefineQuestions det p transcription))))
        (tr_text transcription)) \<and>
   (tr_text transcription = twoQuestionsTranscript \<and>
    baseText det transcription = twoQuestionsTranscript \<longrightarrow>
      map q_text (questionsDetected (snd (detectAndRefineQuestions det p transcription))) =
        [[k_nani, k_ji, h_ni, k_haji, h_ma, h_ri, h_ma, h_su, h_ka],
         [k_dare, h_ga, k_san, k_ka, h_si, h_ma, h_su, h_ka]] \<and>
      map refinedText (questionsDetected (snd (detectAndRefineQuestions det p transcription))) =
        [Some [k_nani, k_ji, h_ni, k_haji, h_ma, h_ri, h_ma, h_su, h_ka, c_qm],
         Some [k_dare, h_ga, k_san, k_ka, h_si, h_ma, h_su, h_ka, c_qm]])"
proof (intro conjI impI)
  show "inOrder (map q_text (questionsDetected (snd (detectAndRefineQuestions det p transcription))))
     (baseText det transcription)"
    by (simp add: questions_detectAndRefineQuestions inOrder_allQuestions)
next
  assume "case detectQuestion det transcription of
       None \<Rightarrow> True
     | Some d \<Rightarrow> inOrder [q_text d] (tr_text transcription)"
  then have "inOrder [baseText det transcription] (tr_text transcription)"
    by (auto simp: baseText_def inOrder_self split: option.splits)
  then show "inOrder (map q_text (questionsDetected (snd (detectAndRefineQuestions det p transcription))))
        (tr_text transcription)"
    using inOrder_span [OF inOrder_allQuestions]
    by (simp add: questions_detectAndRefineQuestions)
next
  assume "tr_text transcription = twoQuestionsTranscript \<and>
    baseText det transcription = twoQuestionsTranscript"
  then have two: "map q_text (allQuestions det transcription) =
           [[k_nani, k_ji, h_ni, k_haji, h_ma, h_ri, h_ma, h_su, h_ka],
            [k_dare, h_ga, k_san, k_ka, h_si, h_ma, h_su, h_ka]] \<and>
         map refinedText (allQuestions det transcription) =
           [Some [k_nani, k_ji, h_ni, k_haji, h_ma, h_ri, h_ma, h_su, h_ka, c_qm],
            Some [k_dare, h_ga, k_san, k_ka, h_si, h_ma, h_su, h_ka, c_qm]]"
    using two_questions [of transcription det] by blast
  from two show "map q_text (questionsDetected (snd (detectAndRefineQuestions det p transcription))) =
        [[k_nani, k_ji, h_ni, k_haji, h_ma, h_ri, h_ma, h_su, h_ka],
         [k_dare, h_ga, k_san, k_ka, h_si, h_ma, h_su, h_ka]]"
    by (simp add: questions_detectAndRefineQuestions)
  from two show "map refinedText (questionsDetected (snd (detectAndRefineQuestions det p transcription))) =
        [Some [k_nani, k_ji, h_ni, k_haji, h_ma, h_ri, h_ma, h_su, h_ka, c_qm],
         Some [k_dare, h_ga, k_san, k_ka, h_si, h_ma, h_su, h_ka, c_qm]]"
    by (simp add: questions_detectAndRefineQuestions)
qed

theorem questions_are_emitted_in_order_witness:
  "detectQuestion nullDetector
     \<lparr>tr_text = twoQuestionsTranscript, tr_timestamp = 104000, tr_confidence = 1,
      tr_isQuestion = False\<rparr> = None \<and>
   map q_text (questionsDetected (snd (detectAndRefineQuestions nullDetector
       (newProcessor defaultConfig)
       \<lparr>tr_text = twoQuestionsTranscript, tr_timestamp = 104000, tr_confidence = 1,
        tr_isQuestion = False\<rparr>))) =
     [[k_nani, k_ji, h_ni, k_haji, h_ma, h_ri, h_ma, h_su, h_ka],
      [k_dare, h_ga, k_san, k_ka, h_si, h_ma, h_su, h_ka]] \<and>
   inOrder [[k_nani, k_ji, h_ni, k_haji, h_ma, h_ri, h_ma, h_su, h_ka],
            [k_dare, h_ga, k_san, k_ka, h_si, h_ma, h_su, h_ka]] twoQuestionsTranscript"
proof -
  let ?tr = "\<lparr>tr_text = twoQuestionsTranscript, tr_timestamp = 104000, tr_confidence = 1,
          tr_isQuestion = False\<rparr>"
  note inst = questions_are_emitted_in_order [of nullDetector "newProcessor defaultConfig" ?tr]
  have none: "detectQuestion nullDetector ?tr = None"
    by (simp add: nullDetector_def)
  then have base: "baseText nullDetector ?tr = twoQuestionsTranscript"
    by (simp add: baseText_def)
  have texts: "map q_text (questionsDetected (snd (detectAndRefineQuestions nullDetector
       (newProcessor defaultConfig) ?tr))) =
     [[k_nani, k_ji, h_ni, k_haji, h_ma, h_ri, h_ma, h_su, h_ka],
      [k_dare, h_ga, k_san, k_ka, h_si, h_ma, h_su, h_ka]]"
    using inst base by simp
  have "inOrder (map q_text (questionsDetected (snd (detectAndRefineQuestions nullDetector
       (newProcessor defaultConfig) ?tr)))) (baseText nullDetector ?tr)"
    using inst by blast
  then have "inOrder [[k_nani, k_ji, h_ni, k_haji, h_ma, h_ri, h_ma, h_su, h_ka],
            [k_dare, h_ga, k_san, k_ka, h_si, h_ma, h_su, h_ka]] twoQuestionsTranscript"
    by (simp only: texts base)
  with none texts show ?thesis by blast
qed

section \<open>Fillers\<close>

lemma yotei_split: "splitIntoQuestions yoteiTranscript =
    [[h_e, c_long, h_to, c_comma, k_kon, k_nichi, h_no, k_yo, k_tei, h_ha, h_do, h_u, h_na,
      h_xtu, h_te, h_i, h_ma, h_su, h_ka]]"
  by (simp add: yoteiTranscript_def text_defs)

lemma yotei_core:
  "trimPreface [h_e, c_long, h_to, c_comma, k_kon, k_nichi, h_no, k_yo, k_tei, h_ha, h_do, h_u,
      h_na, h_xtu, h_te, h_i, h_ma, h_su, h_ka] =
     [h_e, c_long, h_to, c_comma, k_kon, k_nichi, h_no, k_yo, k_tei, h_ha, h_do, h_u, h_na,
      h_xtu, h_te, h_i, h_ma, h_su, h_ka]"
  "trim [h_e, c_long, h_to, c_comma, k_kon, k_nichi, h_no, k_yo, k_tei, h_ha, h_do, h_u,
      h_na, h_xtu, h_te, h_i, h_ma, h_su, h_ka] =
     [h_e, c_long, h_to, c_comma, k_kon, k_nichi, h_no, k_yo, k_tei, h_ha, h_do, h_u, h_na,
      h_xtu, h_te, h_i, h_ma, h_su, h_ka]"
  "looksLikeQuestion [h_e, c_long, h_to, c_comma, k_kon, k_nichi, h_no, k_yo, k_tei, h_ha,
      h_do, h_u, h_na, h_xtu, h_te, h_i, h_ma, h_su, h_ka]"
  "refineQuestionAlgorithmically [h_e, c_long, h_to, c_comma, k_kon, k_nichi, h_no, k_yo, k_tei,
      h_ha, h_do, h_u, h_na, h_xtu, h_te, h_i, h_ma, h_su, h_ka] =
     [h_e, c_long, h_to, a_space, k_kon, k_nichi, h_no, k_yo, k_tei, h_ha, h_do, h_u, h_na,
      h_xtu, h_te, h_i, h_ma, h_su, h_ka, c_qm]"
  by (simp_all add: text_defs)

lemma yotei_questions:
  assumes "tr_text tr = yoteiTranscript" and "baseText det tr = yoteiTranscript"
  shows "map q_text (allQuestions det tr) =
           [[h_e, c_long, h_to, c_comma, k_kon, k_nichi, h_no, k_yo, k_tei, h_ha, h_do, h_u,
             h_na, h_xtu, h_te, h_i, h_ma, h_su, h_ka]] \<and>
         map refinedText (allQuestions det tr) =
           [Some [h_e, c_long, h_to, a_space, k_kon, k_nichi, h_no, k_yo, k_tei, h_ha, h_do, h_u,
                  h_na, h_xtu, h_te, h_i, h_ma, h_su, h_ka, c_qm]]"
proof -
  have long: "\<not> (tr_text tr = [] \<or> length (trim (tr_text tr)) < 3)"
    using assms(1) by (simp add: yoteiTranscript_def text_defs)
  have "allQuestions det tr =
      List.map_filter (refinePart det tr (detectQuestion det tr))
        [[h_e, c_long, h_to, c_comma, k_kon, k_nichi, h_no, k_yo, k_tei, h_ha, h_do, h_u,
          h_na, h_xtu, h_te, h_i, h_ma, h_su, h_ka]]"
    using long assms(2) by (simp add: allQuestions_def yotei_split)
  then show ?thesis
    by (simp add: map_filter_def
        refinePart_accept [OF yotei_core(1) yotei_core(2) _ yotei_core(3)] yotei_core(4))
qed

text \<open>
  Claim C5, evaluated on the code. For the transcript about today's schedule (when the
  text that is split is the transcript) one question is emitted and its refined text
  ends in the interrogative core with a question mark, but the leading filler is still
  there: the refined text is the candidate with the comma after \<open>e-to\<close> replaced by a
  space. The token \<open>e-to\<close> is not in \<open>fillerWords\<close>, which holds its variants
  (\<open>e-\<close>, \<open>e-tto\<close>, \<open>etto\<close>, \<open>eto\<close>, \<open>a-to\<close>), and the leading pattern of
  \<open>trimPreface\<close> needs white space after the filler.
\<close>

theorem eeto_filler_is_kept:
  "map refinedText (questionsDetected (snd (detectAndRefineQuestions nullDetector
       (newProcessor defaultConfig)
       \<lparr>tr_text = yoteiTranscript, tr_timestamp = 104000, tr_confidence = 1,
        tr_isQuestion = False\<rparr>))) =
     [Some [h_e, c_long, h_to, a_space, k_kon, k_nichi, h_no, k_yo, k_tei, h_ha, h_do, h_u,
            h_na, h_xtu, h_te, h_i, h_ma, h_su, h_ka, c_qm]] \<and>
   \<not> isFiller [h_e, c_long, h_to] \<and>
   matchLeadingPreface [h_e, c_long, h_to, c_comma, k_kon, k_nichi, h_no, k_yo, k_tei, h_ha,
      h_do, h_u, h_na, h_xtu, h_te, h_i, h_ma, h_su, h_ka] = None"
proof -
  let ?tr = "\<lparr>tr_text = yoteiTranscript, tr_timestamp = 104000, tr_confidence = 1,
        tr_isQuestion = False\<rparr>"
  have "baseText nullDetector ?tr = yoteiTranscript"
    by (simp add: baseText_def nullDetector_def)
  then have "map refinedText (allQuestions nullDetector ?tr) =
      [Some [h_e, c_long, h_to, a_space, k_kon, k_nichi, h_no, k_yo, k_tei, h_ha, h_do, h_u,
             h_na, h_xtu, h_te, h_i, h_ma, h_su, h_ka, c_qm]]"
    using yotei_questions [of ?tr nullDetector] by simp
  moreover have "\<not> isFiller [h_e, c_long, h_to]"
    by (simp add: text_defs)
  moreover have "matchLeadingPreface [h_e, c_long, h_to, c_comma, k_kon, k_nichi, h_no, k_yo,
      k_tei, h_ha, h_do, h_u, h_na, h_xtu, h_te, h_i, h_ma, h_su, h_ka] = None"
    by (simp add: text_defs)
  ultimately show ?thesis
    by (simp add: questions_detectAndRefineQuestions)
qed









end
